theory Spec2Isabelle
  imports Main "HOL-Library.Word"
begin

section \<open>The log follower of koonkie (log\_follower.go)\<close>

text \<open>
  A shallow embedding of \<^verbatim>\<open>log_follower.go\<close>. The follower is a record, each method a
  function from the follower and the world outside it to a result, the follower after
  the call and the world after the call; an error return is the left summand of the
  result. The context argument is left out: a cancelled call is a call that the log
  source answers with an error.

  Go's \<^verbatim>\<open>int64\<close> and \<^verbatim>\<open>int32\<close> are words of that width: \<open>+\<close> wraps around,
  \<open>sint\<close> reads the two's complement value, and the comparisons of the source are the
  signed ones (\<open>\<le>s\<close>, \<open><s\<close>). A conversion \<^verbatim>\<open>int32(x)\<close> keeps the low 32 bits.
\<close>

type_synonym int64 = "64 word"
type_synonym int32 = "32 word"

subsection \<open>Data of the elephant-api client that the follower reads\<close>

text \<open>
  \<^verbatim>\<open>repository.EventlogItem\<close>: the follower reads the fields \<^verbatim>\<open>Id\<close> and
  \<^verbatim>\<open>Type\<close> only (the names carry a suffix, \<open>Id\<close> being the identity relation of HOL).
  The items of a response are values here: a response that holds a nil pointer, on
  which the loop of \<^verbatim>\<open>pollEventlog\<close> would panic, is not modelled.
\<close>

record EventlogItem =
  Id_item :: int64
  Type_item :: string

text \<open>
  \<^verbatim>\<open>repository.GetEventlogRequest\<close> and \<^verbatim>\<open>repository.GetCompactedEventlogRequest\<close>,
  with the fields the follower sets; a field the source leaves out of the literal is
  Go's zero value. The fields of the second request carry the suffix \<open>_c\<close>.
\<close>

record GetEventlogRequest =
  After :: int64
  BatchSize :: int32
  WaitMs :: int32

record GetCompactedEventlogRequest =
  After_c :: int64
  Until_c :: int64
  Type_c :: string

text \<open>
  \<^verbatim>\<open>repository.Documents\<close> is the remote log source. It is an external service with a
  state of its own (\<open>'sv\<close>), so each of its two operations takes that state and returns
  the answer (an error \<open>'e\<close> or the items of the response) and the next state.
\<close>

record ('sv, 'e) Documents =
  Eventlog :: "GetEventlogRequest \<Rightarrow> 'sv \<Rightarrow> ('e + EventlogItem list) \<times> 'sv"
  CompactedEventlog ::
    "GetCompactedEventlogRequest \<Rightarrow> 'sv \<Rightarrow> ('e + EventlogItem list) \<times> 'sv"

text \<open>The requests sent to the log source, and the world outside the follower: the
  state of the log source, the requests it has received (oldest first), and the
  \<^verbatim>\<open>SetPosition\<close> calls that metrics sinks have received (oldest first).\<close>

datatype call =
  CallEventlog GetEventlogRequest
  | CallCompactedEventlog GetCompactedEventlogRequest

record ('sv, 'm) world =
  server :: 'sv
  calls :: "call list"
  observed :: "('m \<times> string \<times> int64) list"

definition call_Eventlog ::
  "('sv, 'e) Documents \<Rightarrow> GetEventlogRequest \<Rightarrow> ('sv, 'm) world
    \<Rightarrow> ('e + EventlogItem list) \<times> ('sv, 'm) world" where
  "call_Eventlog d req w =
     (case Eventlog d req (server w) of
        (res, s) \<Rightarrow> (res, w\<lparr>server := s, calls := calls w @ [CallEventlog req]\<rparr>))"

definition call_CompactedEventlog ::
  "('sv, 'e) Documents \<Rightarrow> GetCompactedEventlogRequest \<Rightarrow> ('sv, 'm) world
    \<Rightarrow> ('e + EventlogItem list) \<times> ('sv, 'm) world" where
  "call_CompactedEventlog d req w =
     (case CompactedEventlog d req (server w) of
        (res, s) \<Rightarrow> (res, w\<lparr>server := s, calls := calls w @ [CallCompactedEventlog req]\<rparr>))"

text \<open>\<^verbatim>\<open>FollowerMetrics.SetPosition(state, position)\<close> on the sink \<open>m\<close>.\<close>

definition SetPosition ::
  "'m \<Rightarrow> string \<Rightarrow> int64 \<Rightarrow> ('sv, 'm) world \<Rightarrow> ('sv, 'm) world" where
  "SetPosition m state pos w = w\<lparr>observed := observed w @ [(m, state, pos)]\<rparr>"

subsection \<open>Integers of the Go runtime\<close>

text \<open>Go's built-in \<^verbatim>\<open>min\<close> on two \<^verbatim>\<open>int64\<close> values.\<close>

definition min_int64 :: "int64 \<Rightarrow> int64 \<Rightarrow> int64" where
  "min_int64 a b = (if a <s b then a else b)"

definition MaxInt32 :: int64 where
  "MaxInt32 = 2147483647"

text \<open>
  \<^verbatim>\<open>time.Duration\<close> is an \<^verbatim>\<open>int64\<close> count of nanoseconds, and
  \<^verbatim>\<open>Duration.Milliseconds\<close> is \<^verbatim>\<open>int64(d) / 1e6\<close>: Go's division, which truncates
  towards zero.
\<close>

type_synonym Duration = int64

definition Milliseconds :: "Duration \<Rightarrow> int64" where
  "Milliseconds d = word_of_int (sgn (sint d) * (\<bar>sint d\<bar> div 1000000))"

text \<open>The conversion \<^verbatim>\<open>int32(x)\<close> of an \<^verbatim>\<open>int64\<close>.\<close>

definition int32 :: "int64 \<Rightarrow> int32" where
  "int32 x = scast x"

subsection \<open>The follower\<close>

record 'm FollowerOptions =
  Metrics :: "'m option"
  DocType :: string
  StartAfter :: int64
  CaughtUp :: bool
  WaitDuration :: Duration

text \<open>
  The struct \<^verbatim>\<open>LogFollower\<close>. A nil \<^verbatim>\<open>FollowerMetrics\<close> interface is \<open>None\<close>. The
  mutex \<^verbatim>\<open>m\<close> is left out: the calls of this model run one after the other.
\<close>

record ('sv, 'e, 'm) LogFollower =
  docs :: "('sv, 'e) Documents"
  docType :: string
  position :: int64
  caughtUp :: bool
  wait :: int32
  metrics :: "'m option"
  endCompactRead :: bool
  endCompact :: int64

definition NewLogFollower ::
  "('sv, 'e) Documents \<Rightarrow> 'm FollowerOptions \<Rightarrow> ('sv, 'e, 'm) LogFollower" where
  "NewLogFollower d opts =
     \<lparr> docs = d,
       docType = DocType opts,
       position = StartAfter opts,
       caughtUp = CaughtUp opts,
       wait = int32 (min_int64 (Milliseconds (WaitDuration opts)) MaxInt32),
       metrics = None,
       endCompactRead = False,
       endCompact = 0 \<rparr>"

definition eventlogBatchSize :: int32 where
  "eventlogBatchSize = 100"

definition compactedBlockSize :: int64 where
  "compactedBlockSize = 500"

definition GetState :: "('sv, 'e, 'm) LogFollower \<Rightarrow> int64 \<times> bool" where
  "GetState lf = (position lf, caughtUp lf)"

text \<open>The errors of the follower: the error of the log source, wrapped with the
  message of the place that met it.\<close>

datatype 'e error =
  ReadLastEvent 'e  \<comment> \<open>"read last event in eventlog: %w"\<close>
  | PollEventlog 'e  \<comment> \<open>"poll eventlog: %w"\<close>
  | PollCompactedEventlog 'e  \<comment> \<open>"poll compacted eventlog: %w"\<close>

definition checkLogEnd ::
  "('sv, 'e, 'm) LogFollower \<Rightarrow> ('sv, 'm) world
    \<Rightarrow> 'e error option \<times> ('sv, 'e, 'm) LogFollower \<times> ('sv, 'm) world" where
  "checkLogEnd lf w =
     (if endCompactRead lf then (None, lf, w)
      else
        (case call_Eventlog (docs lf) \<lparr>After = - 1, BatchSize = 0, WaitMs = 0\<rparr> w of
           (Inl err, w') \<Rightarrow> (Some (ReadLastEvent err), lf, w')
         | (Inr items, w') \<Rightarrow>
             (None,
              (case items of
                 [] \<Rightarrow> lf
               | item # _ \<Rightarrow> lf\<lparr>endCompact := Id_item item\<rparr>)\<lparr>endCompactRead := True\<rparr>,
              w')))"

text \<open>The loop of \<^verbatim>\<open>pollEventlog\<close> over \<^verbatim>\<open>res.Items\<close>.\<close>

fun filter_items :: "string \<Rightarrow> EventlogItem list \<Rightarrow> EventlogItem list" where
  "filter_items dt [] = []"
| "filter_items dt (item # rest) =
     (if dt \<noteq> [] \<and> Type_item item \<noteq> dt then filter_items dt rest
      else item # filter_items dt rest)"

definition pollEventlog ::
  "('sv, 'e, 'm) LogFollower \<Rightarrow> ('sv, 'm) world
    \<Rightarrow> ('e error + EventlogItem list) \<times> ('sv, 'e, 'm) LogFollower \<times> ('sv, 'm) world" where
  "pollEventlog lf w =
     (case call_Eventlog (docs lf)
             \<lparr>After = position lf, BatchSize = eventlogBatchSize, WaitMs = wait lf\<rparr> w of
        (Inl err, w') \<Rightarrow> (Inl (PollEventlog err), lf, w')
      | (Inr res_Items, w') \<Rightarrow>
          (Inr (filter_items (docType lf) res_Items),
           (if length res_Items > 0 then lf\<lparr>position := Id_item (last res_Items)\<rparr> else lf),
           w'))"

definition pollCompactedEventlog ::
  "('sv, 'e, 'm) LogFollower \<Rightarrow> ('sv, 'm) world
    \<Rightarrow> ('e error + EventlogItem list) \<times> ('sv, 'e, 'm) LogFollower \<times> ('sv, 'm) world" where
  "pollCompactedEventlog lf w =
     (let until = min_int64 (endCompact lf) (position lf + compactedBlockSize) in
      case call_CompactedEventlog (docs lf)
             \<lparr>After_c = position lf, Until_c = until, Type_c = docType lf\<rparr> w of
        (Inl err, w') \<Rightarrow> (Inl (PollCompactedEventlog err), lf, w')
      | (Inr res_Items, w') \<Rightarrow>
          (let lf1 = lf\<lparr>position := until\<rparr>;
               lf2 = (if endCompact lf1 \<le>s until then lf1\<lparr>caughtUp := True\<rparr> else lf1)
           in (Inr res_Items, lf2, w')))"

definition GetNext ::
  "('sv, 'e, 'm) LogFollower \<Rightarrow> ('sv, 'm) world
    \<Rightarrow> ('e error + EventlogItem list) \<times> ('sv, 'e, 'm) LogFollower \<times> ('sv, 'm) world" where
  "GetNext lf w =
     (case checkLogEnd lf w of
        (Some err, lf1, w1) \<Rightarrow> (Inl err, lf1, w1)
      | (None, lf1, w1) \<Rightarrow>
          (case (if caughtUp lf1 then pollEventlog lf1 w1 else pollCompactedEventlog lf1 w1) of
             (Inl err, lf2, w2) \<Rightarrow> (Inl err, lf2, w2)
           | (Inr items, lf2, w2) \<Rightarrow>
               (let state = (if caughtUp lf2 then ''tail'' else ''compact'') in
                (Inr items, lf2,
                 (case metrics lf2 of
                    None \<Rightarrow> w2
                  | Some m \<Rightarrow> SetPosition m state (position lf2) w2)))))"

subsection \<open>A caller's loop\<close>

text \<open>
  The follower is driven by a loop of the caller that calls \<^verbatim>\<open>GetNext\<close> again and
  again, whatever the last call returned. \<open>GetNext_calls n\<close> is the history of \<open>n\<close>
  such calls: the result of each call with the follower and the world after it.
\<close>

fun GetNext_calls ::
  "nat \<Rightarrow> ('sv, 'e, 'm) LogFollower \<Rightarrow> ('sv, 'm) world
    \<Rightarrow> (('e error + EventlogItem list) \<times> ('sv, 'e, 'm) LogFollower \<times> ('sv, 'm) world) list"
  where
  "GetNext_calls 0 lf w = []"
| "GetNext_calls (Suc n) lf w =
     (case GetNext lf w of (res, lf', w') \<Rightarrow> (res, lf', w') # GetNext_calls n lf' w')"

text \<open>The requests that the log source received between the worlds \<open>w\<close> and \<open>w'\<close>.\<close>

definition new_calls :: "('sv, 'm) world \<Rightarrow> ('sv, 'm) world \<Rightarrow> call list" where
  "new_calls w w' = drop (length (calls w)) (calls w')"

subsection \<open>What the follower expects of the log source\<close>

text \<open>
  The live read is asked for the entries after \<^verbatim>\<open>After\<close>. \<open>Eventlog_after d\<close> says
  that the log source \<open>d\<close> keeps to that: a batch that is not empty ends at an ID that is
  not below the \<^verbatim>\<open>After\<close> of its request.
\<close>

definition Eventlog_after :: "('sv, 'e) Documents \<Rightarrow> bool" where
  "Eventlog_after d \<longleftrightarrow>
     (\<forall>req s items s'. Eventlog d req s = (Inr items, s') \<longrightarrow> items \<noteq> []
        \<longrightarrow> After req \<le>s Id_item (last items))"

subsection \<open>A log source to run the follower against\<close>

text \<open>
  An example of a log source, for running the follower on concrete inputs. It serves
  the log \<open>log\<close>, given in ascending order of ID. Its state counts the requests down
  to the one that fails: the request that arrives in state 1 fails, and in state 0 no
  request fails any more. The live read answers the entries after \<^verbatim>\<open>After\<close>, at most
  \<^verbatim>\<open>BatchSize\<close> of them, and the latest entry alone for \<^verbatim>\<open>After = -1\<close>; the
  compacted read answers the entries of the window that have the requested type.
\<close>

definition example_docs :: "EventlogItem list \<Rightarrow> (nat, string) Documents" where
  "example_docs log =
     \<lparr> Eventlog = (\<lambda>req k.
         if k = 1 then (Inl ''unavailable'', 0)
         else if After req = - 1 then (Inr (if log = [] then [] else [last log]), k - 1)
         else (Inr (take (unat (BatchSize req))
                     (filter (\<lambda>item. After req <s Id_item item) log)), k - 1)),
       CompactedEventlog = (\<lambda>req k.
         if k = 1 then (Inl ''unavailable'', 0)
         else (Inr (filter (\<lambda>item. After_c req <s Id_item item \<and> Id_item item \<le>s Until_c req
                              \<and> (Type_c req = [] \<or> Type_item item = Type_c req)) log),
               k - 1)) \<rparr>"

definition example_world :: "nat \<Rightarrow> (nat, string) world" where
  "example_world k = \<lparr> server = k, calls = [], observed = [] \<rparr>"

definition example_log :: "EventlogItem list" where
  "example_log =
     [\<lparr>Id_item = 400, Type_item = ''article''\<rparr>,
      \<lparr>Id_item = 999, Type_item = ''image''\<rparr>,
      \<lparr>Id_item = 1000, Type_item = ''article''\<rparr>]"

definition example_options :: "int64 \<Rightarrow> bool \<Rightarrow> Duration \<Rightarrow> string FollowerOptions" where
  "example_options start caught d =
     \<lparr> Metrics = Some ''sink'', DocType = ''article'', StartAfter = start,
       CaughtUp = caught, WaitDuration = d \<rparr>"

section \<open>Signed arithmetic\<close>

text \<open>The signed values of the conversions, the quotient and the sum that the follower
  computes.\<close>

lemma sint_int32: "sint (int32 x) = signed_take_bit 31 (sint x)"
  unfolding int32_def by (simp only: scast_eq sint_sbintrunc') simp

lemma sint64_range:
  "- 9223372036854775808 \<le> sint (x :: int64) \<and> sint x \<le> 9223372036854775807"
  using sint_ge [of x] sint_lt [of x] by simp

lemma sgn_mult_bounds:
  fixes k q :: int
  assumes "0 \<le> q" "q \<le> \<bar>k\<bar>"
  shows "min k 0 \<le> sgn k * q \<and> sgn k * q \<le> max k 0"
proof -
  consider "k < 0" | "k = 0" | "0 < k" by linarith
  then show ?thesis
  proof cases
    case 1
    with assms show ?thesis by simp
  next
    case 2
    then show ?thesis by simp
  next
    case 3
    with assms show ?thesis by simp
  qed
qed

lemma quotient_bounds:
  fixes k :: int
  shows "min k 0 \<le> sgn k * (\<bar>k\<bar> div 1000000) \<and> sgn k * (\<bar>k\<bar> div 1000000) \<le> max k 0"
proof (rule sgn_mult_bounds)
  show "0 \<le> \<bar>k\<bar> div 1000000"
    by (simp add: pos_imp_zdiv_nonneg_iff)
  show "\<bar>k\<bar> div 1000000 \<le> \<bar>k\<bar>"
  proof (cases "k = 0")
    case True
    then show ?thesis by simp
  next
    case False
    then have "0 < \<bar>k\<bar>" by simp
    then show ?thesis by (rule int_div_le_self)
  qed
qed

lemma sint_Milliseconds: "sint (Milliseconds d) = sgn (sint d) * (\<bar>sint d\<bar> div 1000000)"
proof -
  let ?q = "sgn (sint d) * (\<bar>sint d\<bar> div 1000000)"
  from quotient_bounds [of "sint d"] sint64_range [of d]
  have "- 9223372036854775808 \<le> ?q" and "?q < 9223372036854775808"
    by (simp_all add: min_def max_def split: if_splits)
  then have "signed_take_bit 63 ?q = ?q"
    by (simp add: signed_take_bit_int_eq_self)
  then show ?thesis
    unfolding Milliseconds_def sint_sbintrunc' by simp
qed

lemma sint_plus_block:
  fixes p :: int64
  assumes "sint p \<le> 9223372036854775307"
  shows "sint (p + compactedBlockSize) = sint p + 500"
proof -
  have "sint (500 :: int64) = 500" by simp
  moreover from sint64_range [of p] assms
  have "signed_take_bit 63 (sint p + 500) = sint p + 500"
    by (simp add: signed_take_bit_int_eq_self)
  ultimately show ?thesis
    by (simp add: compactedBlockSize_def sint_word_add)
qed

lemma sint_MaxInt32: "sint MaxInt32 = 2147483647"
  by (simp add: MaxInt32_def)

lemma sint_min_int64: "sint (min_int64 a b) = min (sint a) (sint b)"
  by (simp add: min_int64_def word_sless_alt min_def)

lemma sint_wait_NewLogFollower:
  "sint (wait (NewLogFollower d opts))
     = signed_take_bit 31 (min (sint (Milliseconds (WaitDuration opts))) 2147483647)"
  by (simp add: NewLogFollower_def sint_int32 sint_min_int64 sint_MaxInt32)

section \<open>One call\<close>

text \<open>What each method leaves as it is, and what it does on its error paths.\<close>

lemma checkLogEnd_resolved: "endCompactRead lf \<Longrightarrow> checkLogEnd lf w = (None, lf, w)"
  by (simp add: checkLogEnd_def)

lemma checkLogEnd_keeps:
  assumes "checkLogEnd lf w = (e, lf1, w1)"
  shows "docs lf1 = docs lf" "docType lf1 = docType lf" "position lf1 = position lf"
    "caughtUp lf1 = caughtUp lf" "wait lf1 = wait lf" "metrics lf1 = metrics lf"
    "observed w1 = observed w"
  using assms
  by (auto simp: checkLogEnd_def call_Eventlog_def
      split: if_splits prod.splits sum.splits list.splits)

lemma checkLogEnd_error:
  "checkLogEnd lf w = (Some err, lf1, w1) \<Longrightarrow> lf1 = lf \<and> \<not> endCompactRead lf"
  by (auto simp: checkLogEnd_def call_Eventlog_def
      split: if_splits prod.splits sum.splits list.splits)

lemma checkLogEnd_ok: "checkLogEnd lf w = (None, lf1, w1) \<Longrightarrow> endCompactRead lf1"
  by (auto simp: checkLogEnd_def call_Eventlog_def
      split: if_splits prod.splits sum.splits list.splits)

lemma checkLogEnd_calls:
  assumes "checkLogEnd lf w = (e, lf1, w1)"
  shows "calls w1 = calls w @
    (if endCompactRead lf then [] else [CallEventlog \<lparr>After = - 1, BatchSize = 0, WaitMs = 0\<rparr>])"
  using assms
  by (auto simp: checkLogEnd_def call_Eventlog_def
      split: if_splits prod.splits sum.splits list.splits)

lemma pollEventlog_keeps:
  assumes "pollEventlog lf w = (r, lf1, w1)"
  shows "docs lf1 = docs lf" "docType lf1 = docType lf"
    "caughtUp lf1 = caughtUp lf" "wait lf1 = wait lf" "metrics lf1 = metrics lf"
    "endCompactRead lf1 = endCompactRead lf" "endCompact lf1 = endCompact lf"
    "observed w1 = observed w"
    "calls w1 = calls w @ [CallEventlog
       \<lparr>After = position lf, BatchSize = eventlogBatchSize, WaitMs = wait lf\<rparr>]"
  using assms
  by (auto simp: pollEventlog_def call_Eventlog_def split: if_splits prod.splits sum.splits)

lemma pollCompactedEventlog_keeps:
  assumes "pollCompactedEventlog lf w = (r, lf1, w1)"
  shows "docs lf1 = docs lf" "docType lf1 = docType lf"
    "wait lf1 = wait lf" "metrics lf1 = metrics lf"
    "endCompactRead lf1 = endCompactRead lf" "endCompact lf1 = endCompact lf"
    "observed w1 = observed w"
    "calls w1 = calls w @ [CallCompactedEventlog
       \<lparr>After_c = position lf,
         Until_c = min_int64 (endCompact lf) (position lf + compactedBlockSize),
         Type_c = docType lf\<rparr>]"
  using assms
  by (auto simp: pollCompactedEventlog_def call_CompactedEventlog_def Let_def
      split: if_splits prod.splits sum.splits)

lemma pollEventlog_error: "pollEventlog lf w = (Inl err, lf1, w1) \<Longrightarrow> lf1 = lf"
  by (auto simp: pollEventlog_def call_Eventlog_def split: if_splits prod.splits sum.splits)

lemma pollCompactedEventlog_error:
  "pollCompactedEventlog lf w = (Inl err, lf1, w1) \<Longrightarrow> lf1 = lf"
  by (auto simp: pollCompactedEventlog_def call_CompactedEventlog_def Let_def
      split: if_splits prod.splits sum.splits)

text \<open>The shape of every call: boundary resolution, then one poll, then the report.\<close>

lemma GetNext_cases:
  assumes "GetNext lf w = (r, lf', w')"
  obtains
    (resolve_failed) err where "checkLogEnd lf w = (Some err, lf', w')" "r = Inl err"
  | (poll_failed) lf1 w1 err where "checkLogEnd lf w = (None, lf1, w1)"
      "(if caughtUp lf1 then pollEventlog lf1 w1 else pollCompactedEventlog lf1 w1)
         = (Inl err, lf', w')" "r = Inl err"
  | (ok) lf1 w1 items w2 where "checkLogEnd lf w = (None, lf1, w1)"
      "(if caughtUp lf1 then pollEventlog lf1 w1 else pollCompactedEventlog lf1 w1)
         = (Inr items, lf', w2)" "r = Inr items"
      "w' = (case metrics lf' of None \<Rightarrow> w2
             | Some m \<Rightarrow> SetPosition m (if caughtUp lf' then ''tail'' else ''compact'')
                          (position lf') w2)"
  using assms unfolding GetNext_def
  by (auto simp: Let_def split: prod.splits option.splits sum.splits)

lemma poll_keeps:
  assumes "(if caughtUp lf1 then pollEventlog lf1 w1 else pollCompactedEventlog lf1 w1)
             = (r, lf', w')"
  shows "docs lf' = docs lf1" "docType lf' = docType lf1" "wait lf' = wait lf1"
    "metrics lf' = metrics lf1" "endCompactRead lf' = endCompactRead lf1"
    "endCompact lf' = endCompact lf1" "observed w' = observed w1"
    "caughtUp lf1 \<Longrightarrow> caughtUp lf'"
proof -
  show "docs lf' = docs lf1" "docType lf' = docType lf1" "wait lf' = wait lf1"
    "metrics lf' = metrics lf1" "endCompactRead lf' = endCompactRead lf1"
    "endCompact lf' = endCompact lf1" "observed w' = observed w1"
    using assms pollEventlog_keeps [of lf1 w1 r lf' w']
      pollCompactedEventlog_keeps [of lf1 w1 r lf' w']
    by (cases "caughtUp lf1"; simp)+
  show "caughtUp lf'" if "caughtUp lf1"
    using that assms pollEventlog_keeps(3) [of lf1 w1 r lf' w'] by simp
qed

lemma poll_error:
  assumes "(if caughtUp lf1 then pollEventlog lf1 w1 else pollCompactedEventlog lf1 w1)
             = (Inl err, lf', w')"
  shows "lf' = lf1"
  using assms pollEventlog_error [of lf1 w1 err lf' w']
    pollCompactedEventlog_error [of lf1 w1 err lf' w']
  by (cases "caughtUp lf1") simp_all

lemma GetNext_keeps:
  assumes "GetNext lf w = (r, lf', w')"
  shows "docs lf' = docs lf \<and> docType lf' = docType lf \<and> wait lf' = wait lf
    \<and> metrics lf' = metrics lf"
  using assms
proof (cases rule: GetNext_cases)
  case (resolve_failed err)
  from checkLogEnd_error [OF this(1)] show ?thesis by simp
next
  case (poll_failed lf1 w1 err)
  from checkLogEnd_keeps [OF this(1)] poll_keeps [OF this(2)] show ?thesis by simp
next
  case (ok lf1 w1 items w2)
  from checkLogEnd_keeps [OF this(1)] poll_keeps [OF this(2)] show ?thesis by simp
qed

lemma GetNext_caughtUp:
  assumes "GetNext lf w = (r, lf', w')" and "caughtUp lf"
  shows "caughtUp lf'"
  using assms(1)
proof (cases rule: GetNext_cases)
  case (resolve_failed err)
  from checkLogEnd_error [OF this(1)] assms(2) show ?thesis by simp
next
  case (poll_failed lf1 w1 err)
  from checkLogEnd_keeps(4) [OF this(1)] poll_error [OF this(2)] assms(2)
  show ?thesis by simp
next
  case (ok lf1 w1 items w2)
  from checkLogEnd_keeps(4) [OF this(1)] assms(2) have "caughtUp lf1" by simp
  then show ?thesis by (rule poll_keeps(8) [OF ok(2)])
qed

section \<open>Runs\<close>

lemma GetNext_calls_numeral:
  "GetNext_calls (numeral k) lf w =
     (case GetNext lf w of
        (res, lf', w') \<Rightarrow> (res, lf', w') # GetNext_calls (pred_numeral k) lf' w')"
  by (simp add: numeral_eq_Suc)

lemma GetNext_new_calls:
  assumes "GetNext lf w = (r, lf', w')"
  shows "calls w' = calls w
    @ (if endCompactRead lf then []
       else [CallEventlog \<lparr>After = - 1, BatchSize = 0, WaitMs = 0\<rparr>])
    @ (if endCompactRead lf' then
         [if caughtUp lf
          then CallEventlog
                 \<lparr>After = position lf, BatchSize = eventlogBatchSize, WaitMs = wait lf\<rparr>
          else CallCompactedEventlog
                 \<lparr>After_c = position lf,
                   Until_c = min_int64 (endCompact lf') (position lf + compactedBlockSize),
                   Type_c = docType lf\<rparr>]
       else [])"
  using assms
proof (cases rule: GetNext_cases)
  case (resolve_failed err)
  from checkLogEnd_error [OF this(1)] checkLogEnd_calls [OF this(1)]
  show ?thesis by simp
next
  case (poll_failed lf1 w1 err)
  note k = checkLogEnd_keeps [OF this(1)] and c = checkLogEnd_calls [OF this(1)]
    and r = checkLogEnd_ok [OF this(1)] and e = poll_error [OF this(2)]
  show ?thesis
  proof (cases "caughtUp lf1")
    case True
    with poll_failed(2) have "pollEventlog lf1 w1 = (Inl err, lf', w')" by simp
    from pollEventlog_keeps(9) [OF this] k c r e True show ?thesis by simp
  next
    case False
    with poll_failed(2) have "pollCompactedEventlog lf1 w1 = (Inl err, lf', w')" by simp
    from pollCompactedEventlog_keeps(8) [OF this] k c r e False show ?thesis by simp
  qed
next
  case (ok lf1 w1 items w2)
  note k = checkLogEnd_keeps [OF this(1)] and c = checkLogEnd_calls [OF this(1)]
    and r = checkLogEnd_ok [OF this(1)] and p = poll_keeps [OF this(2)]
  have w: "calls w' = calls w2"
    using ok(4) by (simp add: SetPosition_def split: option.splits)
  show ?thesis
  proof (cases "caughtUp lf1")
    case True
    with ok(2) have "pollEventlog lf1 w1 = (Inr items, lf', w2)" by simp
    from pollEventlog_keeps(9) [OF this] k c r p True w show ?thesis by simp
  next
    case False
    with ok(2) have "pollCompactedEventlog lf1 w1 = (Inr items, lf', w2)" by simp
    from pollCompactedEventlog_keeps(8) [OF this] k c r p False w show ?thesis by simp
  qed
qed

lemma new_calls_append: "calls w' = calls w @ cs \<Longrightarrow> new_calls w w' = cs"
  by (simp add: new_calls_def)

lemma new_calls_trans:
  assumes "calls w1 = calls w @ a" and "calls w' = calls w1 @ b"
  shows "new_calls w w' = new_calls w w1 @ new_calls w1 w'"
proof -
  from assms have "calls w' = calls w @ (a @ b)" by simp
  then have "new_calls w w' = a @ b" by (rule new_calls_append)
  moreover from assms(1) have "new_calls w w1 = a" by (rule new_calls_append)
  moreover from assms(2) have "new_calls w1 w' = b" by (rule new_calls_append)
  ultimately show ?thesis by simp
qed

lemma GetNext_grows:
  assumes "GetNext lf w = (r, lf', w')"
  shows "\<exists>cs. calls w' = calls w @ cs"
  using GetNext_new_calls [OF assms] by blast

lemma GetNext_calls_grows:
  assumes "(r, lf', w') \<in> set (GetNext_calls n lf w)"
  shows "\<exists>cs. calls w' = calls w @ cs"
  using assms
proof (induction n arbitrary: lf w)
  case 0
  then show ?case by simp
next
  case (Suc n)
  obtain r1 lf1 w1 where g: "GetNext lf w = (r1, lf1, w1)"
    by (cases "GetNext lf w") auto
  from GetNext_grows [OF g] obtain a where a: "calls w1 = calls w @ a" ..
  from Suc.prems g
  consider "(r, lf', w') = (r1, lf1, w1)" | "(r, lf', w') \<in> set (GetNext_calls n lf1 w1)"
    by auto
  then show ?case
  proof cases
    case 1
    with a show ?thesis by blast
  next
    case 2
    from Suc.IH [OF 2] obtain b where "calls w' = calls w1 @ b" ..
    with a have "calls w' = calls w @ (a @ b)" by simp
    then show ?thesis ..
  qed
qed

text \<open>A property of followers that every call keeps, and a property of requests that
  every call from such a follower meets, hold all along a run.\<close>

lemma GetNext_calls_invariant:
  assumes step: "\<And>lf w r lf' w'. I lf \<Longrightarrow> GetNext lf w = (r, lf', w')
            \<Longrightarrow> I lf' \<and> (\<forall>c \<in> set (new_calls w w'). Q c)"
    and "I lf" and "(r, lf', w') \<in> set (GetNext_calls n lf w)"
  shows "I lf' \<and> (\<forall>c \<in> set (new_calls w w'). Q c)"
  using assms(2,3)
proof (induction n arbitrary: lf w)
  case 0
  then show ?case by simp
next
  case (Suc n)
  obtain r1 lf1 w1 where g: "GetNext lf w = (r1, lf1, w1)"
    by (cases "GetNext lf w") auto
  from step [OF Suc.prems(1) g]
  have i1: "I lf1" and q1: "\<forall>c \<in> set (new_calls w w1). Q c" by simp_all
  from Suc.prems(2) g
  consider "(r, lf', w') = (r1, lf1, w1)" | "(r, lf', w') \<in> set (GetNext_calls n lf1 w1)"
    by auto
  then show ?case
  proof cases
    case 1
    with i1 q1 show ?thesis by simp
  next
    case 2
    from Suc.IH [OF i1 2]
    have i': "I lf'" and q': "\<forall>c \<in> set (new_calls w1 w'). Q c" by simp_all
    from GetNext_grows [OF g] obtain a where a: "calls w1 = calls w @ a" ..
    from GetNext_calls_grows [OF 2] obtain b where b: "calls w' = calls w1 @ b" ..
    from new_calls_trans [OF a b] q1 q' i' show ?thesis by auto
  qed
qed

text \<open>The definitions that a run on a concrete input unfolds.\<close>

lemmas eval_defs = GetNext_def checkLogEnd_def pollEventlog_def pollCompactedEventlog_def
  call_Eventlog_def call_CompactedEventlog_def SetPosition_def
  example_docs_def example_world_def example_log_def example_options_def
  NewLogFollower_def min_int64_def compactedBlockSize_def eventlogBatchSize_def
  word_sless_alt word_sle_eq int32_def Milliseconds_def MaxInt32_def

lemma GetNext_calls_3:
  obtains r1 lf1 w1 r2 lf2 w2 r3 lf3 w3 where
    "GetNext_calls 3 lf w = [(r1, lf1, w1), (r2, lf2, w2), (r3, lf3, w3)]"
    "GetNext lf w = (r1, lf1, w1)" "GetNext lf1 w1 = (r2, lf2, w2)"
    "GetNext lf2 w2 = (r3, lf3, w3)"
proof -
  obtain r1 lf1 w1 where 1: "GetNext lf w = (r1, lf1, w1)"
    by (cases "GetNext lf w") auto
  obtain r2 lf2 w2 where 2: "GetNext lf1 w1 = (r2, lf2, w2)"
    by (cases "GetNext lf1 w1") auto
  obtain r3 lf3 w3 where 3: "GetNext lf2 w2 = (r3, lf3, w3)"
    by (cases "GetNext lf2 w2") auto
  have "GetNext_calls 3 lf w = [(r1, lf1, w1), (r2, lf2, w2), (r3, lf3, w3)]"
    by (simp add: GetNext_calls_numeral 1 2 3)
  from this 1 2 3 show ?thesis by (rule that)
qed

lemma GetNext_resolved_stays:
  assumes "GetNext lf w = (r, lf', w')" and "endCompactRead lf"
  shows "endCompactRead lf' \<and> endCompact lf' = endCompact lf"
  using assms(1)
proof (cases rule: GetNext_cases)
  case (resolve_failed err)
  from checkLogEnd_error [OF this(1)] assms(2) show ?thesis by simp
next
  case (poll_failed lf1 w1 err)
  with assms(2) have "lf1 = lf" by (simp add: checkLogEnd_resolved)
  with poll_error [OF poll_failed(2)] assms(2) show ?thesis by simp
next
  case (ok lf1 w1 items w2)
  with assms(2) have "lf1 = lf" by (simp add: checkLogEnd_resolved)
  with poll_keeps(5,6) [OF ok(2)] assms(2) show ?thesis by simp
qed

lemma GetNext_resolved_calls:
  assumes "GetNext lf w = (r, lf', w')" and "endCompactRead lf"
  shows "new_calls w w' =
    [if caughtUp lf
     then CallEventlog \<lparr>After = position lf, BatchSize = eventlogBatchSize, WaitMs = wait lf\<rparr>
     else CallCompactedEventlog
            \<lparr>After_c = position lf,
              Until_c = min_int64 (endCompact lf) (position lf + compactedBlockSize),
              Type_c = docType lf\<rparr>]"
proof -
  from GetNext_resolved_stays [OF assms] GetNext_new_calls [OF assms(1)] assms(2)
  show ?thesis by (intro new_calls_append) simp
qed

lemma checkLogEnd_unresolved:
  assumes "\<not> endCompactRead lf"
    and "Eventlog (docs lf) \<lparr>After = - 1, BatchSize = 0, WaitMs = 0\<rparr> (server w) = (res, s)"
  shows "checkLogEnd lf w =
    (case res of
       Inl err \<Rightarrow> (Some (ReadLastEvent err), lf,
                    w\<lparr>server := s, calls := calls w
                         @ [CallEventlog \<lparr>After = - 1, BatchSize = 0, WaitMs = 0\<rparr>]\<rparr>)
     | Inr items \<Rightarrow>
         (None,
          lf\<lparr>endCompact := (case items of [] \<Rightarrow> endCompact lf | item # _ \<Rightarrow> Id_item item),
               endCompactRead := True\<rparr>,
          w\<lparr>server := s, calls := calls w
               @ [CallEventlog \<lparr>After = - 1, BatchSize = 0, WaitMs = 0\<rparr>]\<rparr>))"
  using assms
  by (simp add: checkLogEnd_def call_Eventlog_def split: sum.splits list.splits)

lemma GetNext_unresolved:
  assumes "GetNext lf w = (r, lf', w')" and "\<not> endCompactRead lf"
  shows "(\<exists>rest. new_calls w w' = CallEventlog \<lparr>After = - 1, BatchSize = 0, WaitMs = 0\<rparr> # rest)"
    and "endCompactRead lf' \<longleftrightarrow>
      (\<exists>items. fst (Eventlog (docs lf) \<lparr>After = - 1, BatchSize = 0, WaitMs = 0\<rparr> (server w))
                = Inr items)"
    and "\<not> endCompactRead lf' \<Longrightarrow> lf' = lf \<and> (\<exists>e. r = Inl (ReadLastEvent e))"
proof -
  from GetNext_new_calls [OF assms(1)] assms(2)
  show "\<exists>rest. new_calls w w' = CallEventlog \<lparr>After = - 1, BatchSize = 0, WaitMs = 0\<rparr> # rest"
    by (auto simp: new_calls_def)
  obtain res s where
    e: "Eventlog (docs lf) \<lparr>After = - 1, BatchSize = 0, WaitMs = 0\<rparr> (server w) = (res, s)"
    by (cases "Eventlog (docs lf) \<lparr>After = - 1, BatchSize = 0, WaitMs = 0\<rparr> (server w)") auto
  note c = checkLogEnd_unresolved [OF assms(2) e]
  from assms(1)
  have "(endCompactRead lf' \<longleftrightarrow> (\<exists>items. res = Inr items))
      \<and> (\<not> endCompactRead lf' \<longrightarrow> lf' = lf \<and> (\<exists>e. r = Inl (ReadLastEvent e)))"
  proof (cases rule: GetNext_cases)
    case (resolve_failed err)
    with c assms(2) show ?thesis by (cases res) auto
  next
    case (poll_failed lf1 w1 err)
    from checkLogEnd_ok [OF this(1)] poll_error [OF this(2)] this(1) c
    show ?thesis by (cases res) auto
  next
    case (ok lf1 w1 items w2)
    from checkLogEnd_ok [OF this(1)] poll_keeps(5) [OF this(2)] this(1) c
    show ?thesis by (cases res) auto
  qed
  with e show "endCompactRead lf' \<longleftrightarrow>
      (\<exists>items. fst (Eventlog (docs lf) \<lparr>After = - 1, BatchSize = 0, WaitMs = 0\<rparr> (server w))
                = Inr items)"
    and "\<not> endCompactRead lf' \<Longrightarrow> lf' = lf \<and> (\<exists>e. r = Inl (ReadLastEvent e))"
    by simp_all
qed

subsection \<open>The wait budget along a run\<close>

lemma wait_forwarded:
  assumes "(r, lf', w') \<in> set (GetNext_calls n lf w)"
  shows "wait lf' = wait lf
    \<and> (\<forall>c \<in> set (new_calls w w'). \<forall>req. c = CallEventlog req
          \<longrightarrow> BatchSize req = eventlogBatchSize \<longrightarrow> WaitMs req = wait lf)"
proof (rule GetNext_calls_invariant [where I = "\<lambda>f. wait f = wait lf"])
  show "wait lf = wait lf" ..
  show "(r, lf', w') \<in> set (GetNext_calls n lf w)" by (rule assms)
next
  fix f v r1 f1 v1
  assume i: "wait f = wait lf" and g: "GetNext f v = (r1, f1, v1)"
  from GetNext_new_calls [OF g]
  have "new_calls v v1 =
      (if endCompactRead f then []
       else [CallEventlog \<lparr>After = - 1, BatchSize = 0, WaitMs = 0\<rparr>])
    @ (if endCompactRead f1 then
         [if caughtUp f
          then CallEventlog
                 \<lparr>After = position f, BatchSize = eventlogBatchSize, WaitMs = wait f\<rparr>
          else CallCompactedEventlog
                 \<lparr>After_c = position f,
                   Until_c = min_int64 (endCompact f1) (position f + compactedBlockSize),
                   Type_c = docType f\<rparr>]
       else [])"
    by (rule new_calls_append)
  with i GetNext_keeps [OF g]
  show "wait f1 = wait lf
    \<and> (\<forall>c \<in> set (new_calls v v1). \<forall>req. c = CallEventlog req
          \<longrightarrow> BatchSize req = eventlogBatchSize \<longrightarrow> WaitMs req = wait lf)"
    by (auto simp: eventlogBatchSize_def)
qed

section \<open>The metrics sink\<close>

text \<open>\<^verbatim>\<open>GetNext\<close> reports to the sink of the follower, when it has one; a follower
  made by \<^verbatim>\<open>NewLogFollower\<close> has none.\<close>

lemma NewLogFollower_metrics: "metrics (NewLogFollower d opts) = None"
  by (simp add: NewLogFollower_def)

lemma GetNext_no_sink:
  assumes "GetNext lf w = (r, lf', w')" and "metrics lf = None"
  shows "observed w' = observed w"
  using assms(1)
proof (cases rule: GetNext_cases)
  case (resolve_failed err)
  from checkLogEnd_keeps(7) [OF this(1)] show ?thesis .
next
  case (poll_failed lf1 w1 err)
  from checkLogEnd_keeps(7) [OF this(1)] poll_keeps(7) [OF this(2)] show ?thesis by simp
next
  case (ok lf1 w1 items w2)
  from GetNext_keeps [OF assms(1)] assms(2) have "metrics lf' = None" by simp
  with ok(4) checkLogEnd_keeps(7) [OF ok(1)] poll_keeps(7) [OF ok(2)] show ?thesis by simp
qed

lemma GetNext_reports:
  assumes "GetNext lf w = (Inr items, lf', w')" and "metrics lf = Some m"
  shows "observed w' = observed w
           @ [(m, if caughtUp lf' then ''tail'' else ''compact'', position lf')]"
  using assms(1)
proof (cases rule: GetNext_cases)
  case (resolve_failed err)
  then show ?thesis by simp
next
  case (poll_failed lf1 w1 err)
  then show ?thesis by simp
next
  case (ok lf1 w1 items' w2)
  from GetNext_keeps [OF assms(1)] assms(2) have "metrics lf' = Some m" by simp
  with ok(4) checkLogEnd_keeps(7) [OF ok(1)] poll_keeps(7) [OF ok(2)] show ?thesis
    by (simp add: SetPosition_def)
qed

section \<open>Successful polls\<close>

lemma filter_items_filter:
  "dt \<noteq> [] \<Longrightarrow> filter_items dt xs = filter (\<lambda>item. Type_item item = dt) xs"
  by (induction xs) simp_all

lemma filter_items_no_filter: "filter_items [] xs = xs"
  by (induction xs) simp_all

lemma pollEventlog_ok:
  assumes "pollEventlog lf w = (Inr items, lf', w')"
  obtains raw s where
    "Eventlog (docs lf)
       \<lparr>After = position lf, BatchSize = eventlogBatchSize, WaitMs = wait lf\<rparr> (server w)
       = (Inr raw, s)"
    "items = filter_items (docType lf) raw"
    "position lf' = (if raw = [] then position lf else Id_item (last raw))"
    "server w' = s"
  using assms
  by (auto simp: pollEventlog_def call_Eventlog_def split: prod.splits sum.splits if_splits)

lemma pollCompactedEventlog_ok:
  assumes "pollCompactedEventlog lf w = (Inr items, lf', w')"
  obtains s where
    "CompactedEventlog (docs lf)
       \<lparr>After_c = position lf,
         Until_c = min_int64 (endCompact lf) (position lf + compactedBlockSize),
         Type_c = docType lf\<rparr> (server w) = (Inr items, s)"
    "position lf' = min_int64 (endCompact lf) (position lf + compactedBlockSize)"
    "caughtUp lf' \<longleftrightarrow> caughtUp lf \<or> endCompact lf \<le>s position lf'"
    "server w' = s"
  using assms
  by (auto simp: pollCompactedEventlog_def call_CompactedEventlog_def Let_def
      split: prod.splits sum.splits if_splits)

lemma GetNext_ok_cases:
  assumes "GetNext lf w = (Inr items, lf', w')"
  obtains
    (tail) lf1 w1 w2 where "checkLogEnd lf w = (None, lf1, w1)" "caughtUp lf"
      "pollEventlog lf1 w1 = (Inr items, lf', w2)" "server w' = server w2"
      "calls w' = calls w2"
  | (compacted) lf1 w1 w2 where "checkLogEnd lf w = (None, lf1, w1)" "\<not> caughtUp lf"
      "pollCompactedEventlog lf1 w1 = (Inr items, lf', w2)" "server w' = server w2"
      "calls w' = calls w2"
  using assms
proof (cases rule: GetNext_cases)
  case (resolve_failed err)
  then show ?thesis by simp
next
  case (poll_failed lf1 w1 err)
  then show ?thesis by simp
next
  case (ok lf1 w1 items' w2)
  from ok(4) have sv: "server w' = server w2" "calls w' = calls w2"
    by (simp_all add: SetPosition_def split: option.splits)
  from checkLogEnd_keeps(4) [OF ok(1)] have c: "caughtUp lf1 = caughtUp lf" .
  show ?thesis
  proof (cases "caughtUp lf")
    case True
    with ok c sv show ?thesis by (intro tail [of lf1 w1 w2]) simp_all
  next
    case False
    with ok c sv show ?thesis by (intro compacted [of lf1 w1 w2]) simp_all
  qed
qed

subsection \<open>A successful call in Compacted mode\<close>

lemma GetNext_compacted_ok:
  assumes "GetNext lf w = (Inr items, lf', w')" and "\<not> caughtUp lf"
    and "checkLogEnd lf w = (None, lfr, wr)"
  shows "position lf' = min_int64 (endCompact lfr) (position lf + compactedBlockSize)
    \<and> (caughtUp lf' \<longleftrightarrow> endCompact lfr \<le>s position lf')
    \<and> endCompact lf' = endCompact lfr \<and> endCompactRead lf'
    \<and> new_calls wr w' = [CallCompactedEventlog
           \<lparr>After_c = position lf,
             Until_c = min_int64 (endCompact lfr) (position lf + compactedBlockSize),
             Type_c = docType lf\<rparr>]"
  using assms(1)
proof (cases rule: GetNext_ok_cases)
  case (tail lf1 w1 w2)
  with assms(2) show ?thesis by simp
next
  case (compacted lf1 w1 w2)
  with assms(3) have eq: "lf1 = lfr" "w1 = wr" by simp_all
  note k = checkLogEnd_keeps [OF assms(3)] and r = checkLogEnd_ok [OF assms(3)]
    and p = pollCompactedEventlog_keeps [OF compacted(3)]
  from compacted(3) eq assms(2) k
  have a: "position lf' = min_int64 (endCompact lfr) (position lf + compactedBlockSize)"
    and b: "caughtUp lf' \<longleftrightarrow> endCompact lfr \<le>s position lf'"
    by (auto elim!: pollCompactedEventlog_ok)
  from p eq r have c: "endCompact lf' = endCompact lfr" and d: "endCompactRead lf'"
    by simp_all
  from p(8) eq k compacted(5)
  have "new_calls wr w' = [CallCompactedEventlog
           \<lparr>After_c = position lf,
             Until_c = min_int64 (endCompact lfr) (position lf + compactedBlockSize),
             Type_c = docType lf\<rparr>]"
    by (intro new_calls_append) simp
  with a b c d show ?thesis by simp
qed

subsection \<open>The position after a successful call\<close>

lemma GetNext_tail_ok:
  assumes "GetNext lf w = (Inr items, lf', w')" and "caughtUp lf"
    and "Eventlog_after (docs lf)"
  shows "position lf \<le>s position lf' \<and> caughtUp lf' \<and> endCompactRead lf'"
  using assms(1)
proof (cases rule: GetNext_ok_cases)
  case (tail lf1 w1 w2)
  note k = checkLogEnd_keeps [OF tail(1)] and r = checkLogEnd_ok [OF tail(1)]
    and p = pollEventlog_keeps [OF tail(3)]
  from tail(3) obtain raw s where
    e: "Eventlog (docs lf1)
         \<lparr>After = position lf1, BatchSize = eventlogBatchSize, WaitMs = wait lf1\<rparr> (server w1)
         = (Inr raw, s)"
    and q: "position lf' = (if raw = [] then position lf1 else Id_item (last raw))"
    by (rule pollEventlog_ok)
  have "position lf1 \<le>s position lf'"
  proof (cases "raw = []")
    case True
    with q show ?thesis by simp
  next
    case False
    with assms(3) e k(1) have "position lf1 \<le>s Id_item (last raw)"
      unfolding Eventlog_after_def by fastforce
    with False q show ?thesis by simp
  qed
  with k p r assms(2) show ?thesis by simp
next
  case (compacted lf1 w1 w2)
  with assms(2) show ?thesis by simp
qed

lemma min_int64_mono:
  assumes "p \<le>s b" and "sint b \<le> 9223372036854775307"
  shows "p \<le>s min_int64 b (p + compactedBlockSize)" and "min_int64 b (p + compactedBlockSize) \<le>s b"
proof -
  from assms have "sint p \<le> 9223372036854775307" by (simp add: word_sle_eq)
  then have "sint (p + compactedBlockSize) = sint p + 500" by (rule sint_plus_block)
  with assms(1)
  show "p \<le>s min_int64 b (p + compactedBlockSize)"
    and "min_int64 b (p + compactedBlockSize) \<le>s b"
    by (simp_all add: word_sle_eq sint_min_int64)
qed

lemma GetNext_position_mono:
  assumes "GetNext lf w = (Inr items, lf', w')" and "Eventlog_after (docs lf)"
    and "checkLogEnd lf w = (None, lfr, wr)"
    and "caughtUp lf \<or> (position lf \<le>s endCompact lfr \<and> sint (endCompact lfr) \<le> 9223372036854775307)"
  shows "position lf \<le>s position lf' \<and> endCompactRead lf'
    \<and> (caughtUp lf' \<or> (position lf' \<le>s endCompact lf' \<and> sint (endCompact lf') \<le> 9223372036854775307))"
proof (cases "caughtUp lf")
  case True
  from GetNext_tail_ok [OF assms(1) True assms(2)] show ?thesis by simp
next
  case False
  with assms(4) have b: "position lf \<le>s endCompact lfr"
    "sint (endCompact lfr) \<le> 9223372036854775307" by simp_all
  from GetNext_compacted_ok [OF assms(1) False assms(3)] min_int64_mono [OF b] b(2)
  show ?thesis by simp
qed

text \<open>The example log source answers entries after \<^verbatim>\<open>After\<close>.\<close>

lemma example_docs_after:
  assumes "log = [] \<or> - 1 \<le>s Id_item (last log)"
  shows "Eventlog_after (example_docs log)"
  unfolding Eventlog_after_def
proof (intro allI impI)
  fix req :: GetEventlogRequest and s s' :: nat and items
  assume e: "Eventlog (example_docs log) req s = (Inr items, s')" and ne: "items \<noteq> []"
  show "After req \<le>s Id_item (last items)"
  proof (cases "After req = - 1")
    case True
    with e ne have "items = [last log]" and "log \<noteq> []"
      by (auto simp: example_docs_def split: if_splits)
    with assms True show ?thesis by simp
  next
    case False
    with e have "items = take (unat (BatchSize req))
        (filter (\<lambda>item. After req <s Id_item item) log)"
      by (auto simp: example_docs_def split: if_splits)
    with ne have "last items \<in> set (filter (\<lambda>item. After req <s Id_item item) log)"
      by (metis in_set_takeD last_in_set)
    then show ?thesis by (simp add: word_sle_eq word_sless_alt)
  qed
qed

section \<open>The claims of the specification\<close>

subsection \<open>C1: the boundary of an empty log\<close>

text \<open>
  C1, amended: when the live log has no entry at the time the boundary is resolved, the
  resolved boundary is 0, whatever the starting position (it is the starting position
  only when that is 0). The first \<^verbatim>\<open>GetNext\<close> of a follower constructed in Compacted
  mode with a starting position from \<open>-500\<close> to the greatest \<^verbatim>\<open>int64\<close> less 500 then,
  when it succeeds, sets the position to 0, switches to Tailing, and returns the items
  that the log source answered for the compacted window from the starting position to
  0: an empty result when the log source answers none. The counterexample shows the
  boundary 0 for the starting position 100, and a follower that starts at \<open>-1000\<close>
  and is still in Compacted mode after its first call.
\<close>

theorem empty_log_boundary:
  assumes "fst (Eventlog d \<lparr>After = - 1, BatchSize = 0, WaitMs = 0\<rparr> (server w)) = Inr []"
    and "GetNext (NewLogFollower d opts) w = (r, lf', w')"
  shows "endCompactRead lf' \<and> endCompact lf' = 0
    \<and> (\<forall>items. r = Inr items \<longrightarrow> \<not> CaughtUp opts
          \<longrightarrow> - 500 \<le> sint (StartAfter opts) \<longrightarrow> sint (StartAfter opts) \<le> 9223372036854775307
          \<longrightarrow> position lf' = 0 \<and> caughtUp lf'
            \<and> fst (CompactedEventlog d
                     \<lparr>After_c = StartAfter opts, Until_c = 0, Type_c = DocType opts\<rparr>
                     (snd (Eventlog d \<lparr>After = - 1, BatchSize = 0, WaitMs = 0\<rparr> (server w))))
                = Inr items)"
proof -
  let ?L = "NewLogFollower d opts"
  let ?resolve = "\<lparr>After = - 1, BatchSize = 0, WaitMs = 0\<rparr>"
  obtain s where e: "Eventlog (docs ?L) ?resolve (server w) = (Inr [], s)"
    using assms(1) by (cases "Eventlog d ?resolve (server w)") (simp add: NewLogFollower_def)
  have u: "\<not> endCompactRead ?L" by (simp add: NewLogFollower_def)
  let ?R = "?L\<lparr>endCompact := endCompact ?L, endCompactRead := True\<rparr>"
  let ?V = "w\<lparr>server := s, calls := calls w @ [CallEventlog ?resolve]\<rparr>"
  from checkLogEnd_unresolved [OF u e]
  have c: "checkLogEnd ?L w = (None, ?R, ?V)" by simp
  have b: "endCompact ?R = 0" by (simp add: NewLogFollower_def)
  from assms(2) have res: "endCompactRead lf' \<and> endCompact lf' = 0"
  proof (cases rule: GetNext_cases)
    case (resolve_failed err)
    with c show ?thesis by simp
  next
    case (poll_failed lf1 w1 err)
    with c have "lf1 = ?R" by simp
    with poll_error [OF poll_failed(2)] b show ?thesis by simp
  next
    case (ok lf1 w1 items w2)
    with c have "lf1 = ?R" by simp
    with poll_keeps(5,6) [OF ok(2)] b show ?thesis by simp
  qed
  have "position lf' = 0 \<and> caughtUp lf'
      \<and> fst (CompactedEventlog d
               \<lparr>After_c = StartAfter opts, Until_c = 0, Type_c = DocType opts\<rparr>
               (snd (Eventlog d ?resolve (server w)))) = Inr items"
    if r: "r = Inr items" and m: "\<not> CaughtUp opts"
      and lo: "- 500 \<le> sint (StartAfter opts)"
      and hi: "sint (StartAfter opts) \<le> 9223372036854775307"
    for items
  proof -
    from assms(2) r have g: "GetNext ?L w = (Inr items, lf', w')" by simp
    have nc: "\<not> caughtUp ?L" and p: "position ?L = StartAfter opts"
      and t: "docType ?L = DocType opts" and dd: "docs ?L = d"
      using m by (simp_all add: NewLogFollower_def)
    from hi have "sint (StartAfter opts + compactedBlockSize) = sint (StartAfter opts) + 500"
      by (rule sint_plus_block)
    with lo have "sint (min_int64 0 (StartAfter opts + compactedBlockSize)) = sint (0 :: int64)"
      by (simp add: sint_min_int64)
    then have until: "min_int64 0 (StartAfter opts + compactedBlockSize) = 0"
      by (rule signed_word_eqI)
    from GetNext_compacted_ok [OF g nc c] b p until
    have "position lf' = 0" and "caughtUp lf'" by simp_all
    moreover from g have "fst (CompactedEventlog d
               \<lparr>After_c = StartAfter opts, Until_c = 0, Type_c = DocType opts\<rparr> s) = Inr items"
    proof (cases rule: GetNext_ok_cases)
      case (tail lf1 w1 w2)
      with nc show ?thesis by simp
    next
      case (compacted lf1 w1 w2)
      with c have "lf1 = ?R" "w1 = ?V" by simp_all
      with compacted(3) until p t dd show ?thesis
        by (auto elim!: pollCompactedEventlog_ok simp: NewLogFollower_def)
    qed
    moreover from e dd have "snd (Eventlog d ?resolve (server w)) = s" by simp
    ultimately show ?thesis by simp
  qed
  with res show ?thesis by blast
qed

theorem empty_log_boundary_witness:
  "fst (Eventlog (example_docs []) \<lparr>After = - 1, BatchSize = 0, WaitMs = 0\<rparr>
         (server (example_world 0))) = Inr []
   \<and> fst (GetNext (NewLogFollower (example_docs []) (example_options 100 False 0))
         (example_world 0)) = Inr []
   \<and> endCompactRead (fst (snd (GetNext
         (NewLogFollower (example_docs []) (example_options 100 False 0)) (example_world 0))))
   \<and> endCompact (fst (snd (GetNext
         (NewLogFollower (example_docs []) (example_options 100 False 0)) (example_world 0)))) = 0
   \<and> position (fst (snd (GetNext
         (NewLogFollower (example_docs []) (example_options 100 False 0)) (example_world 0)))) = 0
   \<and> caughtUp (fst (snd (GetNext
         (NewLogFollower (example_docs []) (example_options 100 False 0)) (example_world 0))))"
proof -
  let ?opts = "example_options 100 False 0"
  let ?W = "example_world 0"
  have e: "fst (Eventlog (example_docs []) \<lparr>After = - 1, BatchSize = 0, WaitMs = 0\<rparr>
      (server ?W)) = Inr []"
    by (simp add: example_docs_def example_world_def)
  have r: "fst (GetNext (NewLogFollower (example_docs []) ?opts) ?W) = Inr []"
    by (simp add: eval_defs)
  then obtain lf' w' where
    g: "GetNext (NewLogFollower (example_docs []) ?opts) ?W = (Inr [], lf', w')"
    by (cases "GetNext (NewLogFollower (example_docs []) ?opts) ?W") auto
  have o: "\<not> CaughtUp ?opts" "- 500 \<le> sint (StartAfter ?opts)"
    "sint (StartAfter ?opts) \<le> 9223372036854775307"
    by (simp_all add: example_options_def)
  from empty_log_boundary [OF e g] o
  have "endCompactRead lf' \<and> endCompact lf' = 0 \<and> position lf' = 0 \<and> caughtUp lf'"
    by blast
  with e r g show ?thesis by simp
qed

theorem empty_log_boundary_counterexample:
  "fst (Eventlog (example_docs []) \<lparr>After = - 1, BatchSize = 0, WaitMs = 0\<rparr>
         (server (example_world 0))) = Inr []
   \<and> StartAfter (example_options 100 False 0) = 100
   \<and> endCompact (fst (snd (GetNext
         (NewLogFollower (example_docs []) (example_options 100 False 0)) (example_world 0)))) = 0
   \<and> endCompact (fst (snd (GetNext
         (NewLogFollower (example_docs []) (example_options 100 False 0)) (example_world 0))))
       \<noteq> StartAfter (example_options 100 False 0)
   \<and> fst (GetNext (NewLogFollower (example_docs []) (example_options (- 1000) False 0))
         (example_world 0)) = Inr []
   \<and> position (fst (snd (GetNext
         (NewLogFollower (example_docs []) (example_options (- 1000) False 0))
         (example_world 0)))) = - 500
   \<and> \<not> caughtUp (fst (snd (GetNext
         (NewLogFollower (example_docs []) (example_options (- 1000) False 0))
         (example_world 0))))"
  by (simp add: eval_defs)

subsection \<open>C2: the metrics sink of the options\<close>

text \<open>
  C2 says that a follower constructed with a metrics sink in its options reports the mode
  label and the position to that sink after every successful \<^verbatim>\<open>GetNext\<close>.
  \<^verbatim>\<open>GetNext\<close> does report to the sink of the follower (lemma \<open>GetNext_reports\<close>), and
  does nothing without one (lemma \<open>GetNext_no_sink\<close>), but \<^verbatim>\<open>NewLogFollower\<close> never
  copies \<^verbatim>\<open>opts.Metrics\<close> into the follower (lemma \<open>NewLogFollower_metrics\<close>). The
  theorem runs the code on options that carry the sink \<open>''sink''\<close>: the call succeeds
  and the sink has received nothing.
\<close>

theorem configured_Metrics_not_reported:
  "Metrics (example_options 0 False 0) = Some ''sink''
   \<and> fst (GetNext (NewLogFollower (example_docs example_log) (example_options 0 False 0))
            (example_world 0)) = Inr [\<lparr>Id_item = 400, Type_item = ''article''\<rparr>]
   \<and> observed (snd (snd (GetNext
         (NewLogFollower (example_docs example_log) (example_options 0 False 0))
         (example_world 0)))) = []"
  by (simp add: eval_defs)

subsection \<open>C3: the position never decreases\<close>

text \<open>
  C3, amended: along every run of successful \<^verbatim>\<open>GetNext\<close> calls the positions, the
  starting one included, are in non-decreasing order, provided that the live batches of
  the log source end at an ID that is not below the \<^verbatim>\<open>After\<close> of the request and
  that, for a follower that starts in Compacted mode, the starting position is not above
  the resolved boundary and the boundary is at most the greatest \<^verbatim>\<open>int64\<close> less 500.
  The counterexample shows a follower that starts at 100 on a log that ends at 50 and
  goes back to 50 with its first call, and a follower whose window overflows:
  \<^verbatim>\<open>position + 500\<close> wraps around below the greatest boundary.
\<close>

theorem position_monotone:
  assumes "Eventlog_after (docs lf)"
    and "caughtUp lf \<or> (position lf \<le>s endCompact (fst (snd (checkLogEnd lf w)))
           \<and> sint (endCompact (fst (snd (checkLogEnd lf w)))) \<le> 9223372036854775307)"
    and "\<forall>(r, lf', w') \<in> set (GetNext_calls n lf w). \<exists>items. r = Inr items"
  shows "sorted_wrt (\<le>s) (position lf # map (\<lambda>(r, lf', w'). position lf') (GetNext_calls n lf w))"
  using assms
proof (induction n arbitrary: lf w)
  case 0
  then show ?case by simp
next
  case (Suc n)
  obtain r1 lf1 w1 where g: "GetNext lf w = (r1, lf1, w1)"
    by (cases "GetNext lf w") auto
  with Suc.prems(3) obtain items where r1: "r1 = Inr items" by auto
  from g r1 obtain lfr wr where c: "checkLogEnd lf w = (None, lfr, wr)"
    by (cases rule: GetNext_cases) auto
  from Suc.prems(2) c
  have inv: "caughtUp lf \<or> (position lf \<le>s endCompact lfr
      \<and> sint (endCompact lfr) \<le> 9223372036854775307)" by simp
  from GetNext_position_mono [OF g [unfolded r1] Suc.prems(1) c inv]
  have le: "position lf \<le>s position lf1" and res: "endCompactRead lf1"
    and inv1: "caughtUp lf1 \<or> (position lf1 \<le>s endCompact lf1
      \<and> sint (endCompact lf1) \<le> 9223372036854775307)"
    by simp_all
  from GetNext_keeps [OF g] Suc.prems(1) have d1: "Eventlog_after (docs lf1)" by simp
  from res inv1
  have inv1': "caughtUp lf1 \<or> (position lf1 \<le>s endCompact (fst (snd (checkLogEnd lf1 w1)))
      \<and> sint (endCompact (fst (snd (checkLogEnd lf1 w1)))) \<le> 9223372036854775307)"
    by (simp add: checkLogEnd_resolved)
  from Suc.prems(3) g
  have ok1: "\<forall>(r, lf', w') \<in> set (GetNext_calls n lf1 w1). \<exists>items. r = Inr items"
    by auto
  from Suc.IH [OF d1 inv1' ok1]
  have s: "sorted_wrt (\<le>s) (position lf1 # map (\<lambda>(r, lf', w'). position lf') (GetNext_calls n lf1 w1))" .
  then have "\<forall>p \<in> set (map (\<lambda>(r, lf', w'). position lf') (GetNext_calls n lf1 w1)). position lf1 \<le>s p"
    by simp
  with le have "\<forall>p \<in> set (map (\<lambda>(r, lf', w'). position lf') (GetNext_calls n lf1 w1)). position lf \<le>s p"
    by (auto simp: word_sle_eq)
  with s le g show ?case by simp
qed

theorem position_monotone_witness:
  "Eventlog_after (docs (NewLogFollower (example_docs example_log) (example_options 0 False 0)))
   \<and> position (NewLogFollower (example_docs example_log) (example_options 0 False 0))
       \<le>s endCompact (fst (snd (checkLogEnd
             (NewLogFollower (example_docs example_log) (example_options 0 False 0))
             (example_world 0))))
   \<and> map fst (GetNext_calls 3
          (NewLogFollower (example_docs example_log) (example_options 0 False 0))
          (example_world 0))
       = [Inr [\<lparr>Id_item = 400, Type_item = ''article''\<rparr>],
          Inr [\<lparr>Id_item = 1000, Type_item = ''article''\<rparr>], Inr []]
   \<and> sorted_wrt (\<le>s)
        (position (NewLogFollower (example_docs example_log) (example_options 0 False 0))
         # map (\<lambda>(r, lf', w'). position lf')
             (GetNext_calls 3
                (NewLogFollower (example_docs example_log) (example_options 0 False 0))
                (example_world 0)))
   \<and> map (\<lambda>(r, lf', w'). position lf')
        (GetNext_calls 3
           (NewLogFollower (example_docs example_log) (example_options 0 False 0))
           (example_world 0)) = [500, 1000, 1000]"
proof -
  let ?L = "NewLogFollower (example_docs example_log) (example_options 0 False 0)"
  let ?W = "example_world 0"
  have d: "docs ?L = example_docs example_log" by (simp add: NewLogFollower_def)
  have "Eventlog_after (example_docs example_log)"
    by (rule example_docs_after) (simp add: example_log_def word_sle_eq)
  with d have a: "Eventlog_after (docs ?L)" by simp
  have b: "endCompact (fst (snd (checkLogEnd ?L ?W))) = 1000" and p: "position ?L = 0"
    by (simp_all add: eval_defs)
  then have h: "caughtUp ?L \<or> (position ?L \<le>s endCompact (fst (snd (checkLogEnd ?L ?W)))
      \<and> sint (endCompact (fst (snd (checkLogEnd ?L ?W)))) \<le> 9223372036854775307)"
    by (simp add: word_sle_eq)
  have rs: "map fst (GetNext_calls 3 ?L ?W)
      = [Inr [\<lparr>Id_item = 400, Type_item = ''article''\<rparr>],
         Inr [\<lparr>Id_item = 1000, Type_item = ''article''\<rparr>], Inr []]"
    by (simp add: GetNext_calls_numeral eval_defs)
  obtain r1 lf1 w1 r2 lf2 w2 r3 lf3 w3 where
    run: "GetNext_calls 3 ?L ?W = [(r1, lf1, w1), (r2, lf2, w2), (r3, lf3, w3)]"
    by (rule GetNext_calls_3)
  with rs have ok: "\<forall>(r, lf', w') \<in> set (GetNext_calls 3 ?L ?W). \<exists>items. r = Inr items"
    by simp
  have ps: "map (\<lambda>(r, lf', w'). position lf') (GetNext_calls 3 ?L ?W) = [500, 1000, 1000]"
    by (simp add: GetNext_calls_numeral eval_defs)
  from position_monotone [OF a h ok] a b p rs ps show ?thesis
    by (simp add: word_sle_eq)
qed

theorem position_monotone_counterexample:
  "fst (GetNext
         (NewLogFollower (example_docs [\<lparr>Id_item = 50, Type_item = ''article''\<rparr>])
            (example_options 100 False 0))
         (example_world 0)) = Inr []
   \<and> position (NewLogFollower (example_docs [\<lparr>Id_item = 50, Type_item = ''article''\<rparr>])
                 (example_options 100 False 0)) = 100
   \<and> endCompact (fst (snd (GetNext
         (NewLogFollower (example_docs [\<lparr>Id_item = 50, Type_item = ''article''\<rparr>])
            (example_options 100 False 0))
         (example_world 0)))) = 50
   \<and> position (fst (snd (GetNext
         (NewLogFollower (example_docs [\<lparr>Id_item = 50, Type_item = ''article''\<rparr>])
            (example_options 100 False 0))
         (example_world 0)))) = 50
   \<and> \<not> (position (NewLogFollower (example_docs [\<lparr>Id_item = 50, Type_item = ''article''\<rparr>])
                     (example_options 100 False 0))
          \<le>s position (fst (snd (GetNext
                 (NewLogFollower (example_docs [\<lparr>Id_item = 50, Type_item = ''article''\<rparr>])
                    (example_options 100 False 0))
                 (example_world 0)))))
   \<and> fst (GetNext
         (NewLogFollower
            (example_docs [\<lparr>Id_item = 9223372036854775807, Type_item = ''article''\<rparr>])
            (example_options 9223372036854775707 False 0))
         (example_world 0)) = Inr []
   \<and> endCompact (fst (snd (GetNext
         (NewLogFollower
            (example_docs [\<lparr>Id_item = 9223372036854775807, Type_item = ''article''\<rparr>])
            (example_options 9223372036854775707 False 0))
         (example_world 0)))) = 9223372036854775807
   \<and> sint (position (fst (snd (GetNext
         (NewLogFollower
            (example_docs [\<lparr>Id_item = 9223372036854775807, Type_item = ''article''\<rparr>])
            (example_options 9223372036854775707 False 0))
         (example_world 0))))) = - 9223372036854775409"
  by (simp add: eval_defs)

subsection \<open>C4: the windows of the compacted phase\<close>

text \<open>
  C4: with the boundary resolved to 1000, the block size 500 and the position 0 in
  Compacted mode, the first successful \<^verbatim>\<open>GetNext\<close> moves the position to 500 (window
  0 to 500), the second moves it to 1000 (window 500 to 1000) and switches to Tailing,
  and the third call polls the live log after 1000 in Tailing mode.
\<close>

theorem compacted_windows:
  assumes "checkLogEnd lf w = (None, lfr, wr)" and "endCompact lfr = 1000"
    and "position lf = 0" and "\<not> caughtUp lf"
    and "GetNext_calls 3 lf w = [(Inr items1, lf1, w1), (Inr items2, lf2, w2), (r3, lf3, w3)]"
  shows "position lf1 = 500 \<and> \<not> caughtUp lf1
    \<and> position lf2 = 1000 \<and> caughtUp lf2
    \<and> caughtUp lf3
    \<and> new_calls wr w1
        = [CallCompactedEventlog \<lparr>After_c = 0, Until_c = 500, Type_c = docType lf\<rparr>]
    \<and> new_calls w1 w2
        = [CallCompactedEventlog \<lparr>After_c = 500, Until_c = 1000, Type_c = docType lf\<rparr>]
    \<and> new_calls w2 w3
        = [CallEventlog \<lparr>After = 1000, BatchSize = eventlogBatchSize, WaitMs = wait lf\<rparr>]"
proof -
  from assms(5) have g1: "GetNext lf w = (Inr items1, lf1, w1)"
    and g2: "GetNext lf1 w1 = (Inr items2, lf2, w2)"
    and g3: "GetNext lf2 w2 = (r3, lf3, w3)"
    by (simp_all add: GetNext_calls_numeral split: prod.splits)
  have m1: "min_int64 1000 (0 + compactedBlockSize) = 500"
    and m2: "min_int64 1000 (500 + compactedBlockSize) = 1000"
    and c1: "\<not> (1000 :: int64) \<le>s 500" and c2: "(1000 :: int64) \<le>s 1000"
    by (simp_all add: min_int64_def compactedBlockSize_def word_sless_alt word_sle_eq)
  note k1 = GetNext_keeps [OF g1] and k2 = GetNext_keeps [OF g2]
  from GetNext_compacted_ok [OF g1 assms(4,1)] assms(2,3) m1 c1
  have p1: "position lf1 = 500" and u1: "\<not> caughtUp lf1" and e1: "endCompact lf1 = 1000"
    and r1: "endCompactRead lf1"
    and n1: "new_calls wr w1
        = [CallCompactedEventlog \<lparr>After_c = 0, Until_c = 500, Type_c = docType lf\<rparr>]"
    by simp_all
  from r1 have cl1: "checkLogEnd lf1 w1 = (None, lf1, w1)" by (rule checkLogEnd_resolved)
  from GetNext_compacted_ok [OF g2 u1 cl1] p1 e1 m2 c2 k1
  have p2: "position lf2 = 1000" and u2: "caughtUp lf2" and r2: "endCompactRead lf2"
    and n2: "new_calls w1 w2
        = [CallCompactedEventlog \<lparr>After_c = 500, Until_c = 1000, Type_c = docType lf\<rparr>]"
    by simp_all
  from GetNext_caughtUp [OF g3 u2] have u3: "caughtUp lf3" .
  from GetNext_resolved_calls [OF g3 r2] u2 p2 k1 k2
  have n3: "new_calls w2 w3
        = [CallEventlog \<lparr>After = 1000, BatchSize = eventlogBatchSize, WaitMs = wait lf\<rparr>]"
    by simp
  from p1 u1 p2 u2 u3 n1 n2 n3 show ?thesis by simp
qed

theorem compacted_windows_witness:
  "fst (checkLogEnd (NewLogFollower (example_docs example_log) (example_options 0 False 0))
         (example_world 0)) = None
   \<and> endCompact (fst (snd (checkLogEnd
         (NewLogFollower (example_docs example_log) (example_options 0 False 0))
         (example_world 0)))) = 1000
   \<and> map (\<lambda>(r, lf', w'). (r, position lf', caughtUp lf'))
        (GetNext_calls 3 (NewLogFollower (example_docs example_log) (example_options 0 False 0))
           (example_world 0))
       = [(Inr [\<lparr>Id_item = 400, Type_item = ''article''\<rparr>], 500, False),
          (Inr [\<lparr>Id_item = 1000, Type_item = ''article''\<rparr>], 1000, True),
          (Inr [], 1000, True)]"
proof -
  let ?L = "NewLogFollower (example_docs example_log) (example_options 0 False 0)"
  let ?W = "example_world 0"
  have c0: "fst (checkLogEnd ?L ?W) = None"
    and e: "endCompact (fst (snd (checkLogEnd ?L ?W))) = 1000"
    by (simp_all add: eval_defs)
  then obtain lfr wr where c: "checkLogEnd ?L ?W = (None, lfr, wr)" and b: "endCompact lfr = 1000"
    by (cases "checkLogEnd ?L ?W") auto
  have p: "position ?L = 0" and u: "\<not> caughtUp ?L"
    by (simp_all add: NewLogFollower_def example_options_def)
  have rs: "map fst (GetNext_calls 3 ?L ?W)
      = [Inr [\<lparr>Id_item = 400, Type_item = ''article''\<rparr>],
         Inr [\<lparr>Id_item = 1000, Type_item = ''article''\<rparr>], Inr []]"
    by (simp add: GetNext_calls_numeral eval_defs)
  obtain r1 lf1 w1 r2 lf2 w2 r3 lf3 w3 where
    run: "GetNext_calls 3 ?L ?W = [(r1, lf1, w1), (r2, lf2, w2), (r3, lf3, w3)]"
    by (rule GetNext_calls_3)
  with rs have r: "r1 = Inr [\<lparr>Id_item = 400, Type_item = ''article''\<rparr>]"
    "r2 = Inr [\<lparr>Id_item = 1000, Type_item = ''article''\<rparr>]" "r3 = Inr []"
    by simp_all
  from compacted_windows [OF c b p u run [unfolded r(1,2)]]
  have "position lf1 = 500 \<and> \<not> caughtUp lf1 \<and> position lf2 = 1000 \<and> caughtUp lf2
      \<and> caughtUp lf3"
    by simp
  moreover have "position (fst (snd (last (GetNext_calls 3 ?L ?W)))) = 1000"
    by (simp add: GetNext_calls_numeral eval_defs)
  with run have "position lf3 = 1000" by simp
  ultimately show ?thesis using c0 e run r by simp
qed

subsection \<open>C5: the mode never goes back to Compacted\<close>

text \<open>
  C5: once \<^verbatim>\<open>caughtUp\<close> is true it stays true: after every call of a run that starts
  from a follower in Tailing mode, whether the calls succeed or fail, the follower is
  in Tailing mode.
\<close>

theorem caughtUp_never_reset:
  assumes "caughtUp lf"
  shows "\<forall>(r, lf', w') \<in> set (GetNext_calls n lf w). caughtUp lf'"
  using assms
proof (induction n arbitrary: lf w)
  case 0
  then show ?case by simp
next
  case (Suc n)
  obtain r lf1 w1 where step: "GetNext lf w = (r, lf1, w1)"
    by (cases "GetNext lf w") auto
  from GetNext_caughtUp [OF step Suc.prems] have "caughtUp lf1" .
  with Suc.IH [of lf1 w1] step show ?case by simp
qed

theorem caughtUp_never_reset_witness:
  "caughtUp (NewLogFollower (example_docs example_log) (example_options 1000 True 0))
   \<and> map (\<lambda>(r, lf', w'). caughtUp lf')
        (GetNext_calls 3 (NewLogFollower (example_docs example_log) (example_options 1000 True 0))
           (example_world 3)) = [True, True, True]"
proof -
  let ?lf = "NewLogFollower (example_docs example_log) (example_options 1000 True 0)"
  have c: "caughtUp ?lf" by (simp add: NewLogFollower_def example_options_def)
  obtain r1 lf1 w1 r2 lf2 w2 r3 lf3 w3 where
    run: "GetNext_calls 3 ?lf (example_world 3) = [(r1, lf1, w1), (r2, lf2, w2), (r3, lf3, w3)]"
    by (rule GetNext_calls_3)
  from caughtUp_never_reset [OF c, of 3 "example_world 3"] run
  have "caughtUp lf1 \<and> caughtUp lf2 \<and> caughtUp lf3" by simp
  with c run show ?thesis by simp
qed

subsection \<open>C6: where the type filter is applied\<close>

text \<open>
  C6: after the boundary resolution of the call has succeeded, a call in Tailing mode
  with a type filter that is not empty returns the items of the raw batch that have the
  type of the filter, and moves the position to the ID of the last item of the raw batch,
  dropped or not (the position stays when the raw batch is empty). A call in Compacted
  mode sends the type filter to the log source in its one request, and returns the
  items of the answer as they are.
\<close>

theorem filter_asymmetry:
  assumes "checkLogEnd lf w = (None, lf1, w1)"
  shows "(caughtUp lf \<longrightarrow> docType lf \<noteq> [] \<longrightarrow>
      (\<forall>raw s. Eventlog (docs lf)
                  \<lparr>After = position lf, BatchSize = eventlogBatchSize, WaitMs = wait lf\<rparr>
                  (server w1) = (Inr raw, s)
         \<longrightarrow> fst (GetNext lf w) = Inr (filter (\<lambda>item. Type_item item = docType lf) raw)
           \<and> position (fst (snd (GetNext lf w)))
               = (if raw = [] then position lf else Id_item (last raw))))
   \<and> (\<not> caughtUp lf \<longrightarrow>
        new_calls w1 (snd (snd (GetNext lf w)))
          = [CallCompactedEventlog
               \<lparr>After_c = position lf,
                 Until_c = min_int64 (endCompact lf1) (position lf + compactedBlockSize),
                 Type_c = docType lf\<rparr>]
      \<and> (\<forall>items s. CompactedEventlog (docs lf)
                 \<lparr>After_c = position lf,
                   Until_c = min_int64 (endCompact lf1) (position lf + compactedBlockSize),
                   Type_c = docType lf\<rparr> (server w1) = (Inr items, s)
           \<longrightarrow> fst (GetNext lf w) = Inr items))"
proof -
  note k = checkLogEnd_keeps [OF assms]
  have tail: "fst (GetNext lf w) = Inr (filter (\<lambda>item. Type_item item = docType lf) raw)
      \<and> position (fst (snd (GetNext lf w)))
           = (if raw = [] then position lf else Id_item (last raw))"
    if "caughtUp lf" and "docType lf \<noteq> []"
      and "Eventlog (docs lf)
             \<lparr>After = position lf, BatchSize = eventlogBatchSize, WaitMs = wait lf\<rparr>
             (server w1) = (Inr raw, s)"
    for raw s
    using that assms k
    by (simp add: GetNext_def pollEventlog_def call_Eventlog_def Let_def filter_items_filter
        split: option.splits)
  have comp: "new_calls w1 (snd (snd (GetNext lf w)))
          = [CallCompactedEventlog
               \<lparr>After_c = position lf,
                 Until_c = min_int64 (endCompact lf1) (position lf + compactedBlockSize),
                 Type_c = docType lf\<rparr>]
      \<and> (\<forall>items s. CompactedEventlog (docs lf)
                 \<lparr>After_c = position lf,
                   Until_c = min_int64 (endCompact lf1) (position lf + compactedBlockSize),
                   Type_c = docType lf\<rparr> (server w1) = (Inr items, s)
           \<longrightarrow> fst (GetNext lf w) = Inr items)"
    if "\<not> caughtUp lf"
    using that assms k
    by (auto simp: GetNext_def pollCompactedEventlog_def call_CompactedEventlog_def Let_def
        SetPosition_def new_calls_def split: option.splits sum.splits prod.splits)
  from tail comp show ?thesis by blast
qed

theorem filter_asymmetry_witness:
  "fst (checkLogEnd
         (NewLogFollower (example_docs (example_log @ [\<lparr>Id_item = 1001, Type_item = ''image''\<rparr>]))
            (example_options 999 True 0))
         (example_world 0)) = None
   \<and> fst (GetNext
         (NewLogFollower (example_docs (example_log @ [\<lparr>Id_item = 1001, Type_item = ''image''\<rparr>]))
            (example_options 999 True 0))
         (example_world 0)) = Inr [\<lparr>Id_item = 1000, Type_item = ''article''\<rparr>]
   \<and> position (fst (snd (GetNext
         (NewLogFollower (example_docs (example_log @ [\<lparr>Id_item = 1001, Type_item = ''image''\<rparr>]))
            (example_options 999 True 0))
         (example_world 0)))) = 1001
   \<and> fst (checkLogEnd (NewLogFollower (example_docs example_log) (example_options 0 False 0))
         (example_world 0)) = None
   \<and> new_calls
        (snd (snd (checkLogEnd
           (NewLogFollower (example_docs example_log) (example_options 0 False 0))
           (example_world 0))))
        (snd (snd (GetNext
           (NewLogFollower (example_docs example_log) (example_options 0 False 0))
           (example_world 0))))
       = [CallCompactedEventlog \<lparr>After_c = 0, Until_c = 500, Type_c = ''article''\<rparr>]
   \<and> fst (GetNext (NewLogFollower (example_docs example_log) (example_options 0 False 0))
         (example_world 0)) = Inr [\<lparr>Id_item = 400, Type_item = ''article''\<rparr>]"
proof -
  let ?T = "NewLogFollower
      (example_docs (example_log @ [\<lparr>Id_item = 1001, Type_item = ''image''\<rparr>]))
      (example_options 999 True 0)"
  let ?C = "NewLogFollower (example_docs example_log) (example_options 0 False 0)"
  let ?raw = "[\<lparr>Id_item = 1000, Type_item = ''article''\<rparr>,
               \<lparr>Id_item = 1001, Type_item = ''image''\<rparr>]"
  have t0: "fst (checkLogEnd ?T (example_world 0)) = None" by (simp add: eval_defs)
  then obtain t1 v1 where t: "checkLogEnd ?T (example_world 0) = (None, t1, v1)"
    by (cases "checkLogEnd ?T (example_world 0)") auto
  then have v1: "v1 = snd (snd (checkLogEnd ?T (example_world 0)))" by simp
  have tc: "caughtUp ?T" and td: "docType ?T \<noteq> []" and tp: "position ?T = 999"
    by (simp_all add: NewLogFollower_def example_options_def)
  have "\<exists>s. Eventlog (docs ?T)
        \<lparr>After = position ?T, BatchSize = eventlogBatchSize, WaitMs = wait ?T\<rparr> (server v1)
          = (Inr ?raw, s)"
    unfolding v1 by (simp add: eval_defs)
  then obtain s where
    "Eventlog (docs ?T)
        \<lparr>After = position ?T, BatchSize = eventlogBatchSize, WaitMs = wait ?T\<rparr> (server v1)
          = (Inr ?raw, s)" ..
  with filter_asymmetry [OF t] tc td
  have "fst (GetNext ?T (example_world 0))
          = Inr (filter (\<lambda>item. Type_item item = docType ?T) ?raw)
      \<and> position (fst (snd (GetNext ?T (example_world 0))))
          = (if ?raw = [] then position ?T else Id_item (last ?raw))"
    by blast
  then have tail: "fst (GetNext ?T (example_world 0)) = Inr [\<lparr>Id_item = 1000, Type_item = ''article''\<rparr>]"
    "position (fst (snd (GetNext ?T (example_world 0)))) = 1001"
    by (simp_all add: NewLogFollower_def example_options_def)
  have c0: "fst (checkLogEnd ?C (example_world 0)) = None" by (simp add: eval_defs)
  then obtain c1 u1 where c: "checkLogEnd ?C (example_world 0) = (None, c1, u1)"
    by (cases "checkLogEnd ?C (example_world 0)") auto
  have cc: "\<not> caughtUp ?C" by (simp add: NewLogFollower_def example_options_def)
  have e: "endCompact (fst (snd (checkLogEnd ?C (example_world 0)))) = 1000"
    by (simp add: eval_defs)
  from filter_asymmetry [OF c] cc
  have "new_calls u1 (snd (snd (GetNext ?C (example_world 0))))
          = [CallCompactedEventlog
               \<lparr>After_c = position ?C,
                 Until_c = min_int64 (endCompact c1) (position ?C + compactedBlockSize),
                 Type_c = docType ?C\<rparr>]"
    by blast
  moreover from c e have "endCompact c1 = 1000" by simp
  ultimately have comp: "new_calls (snd (snd (checkLogEnd ?C (example_world 0))))
        (snd (snd (GetNext ?C (example_world 0))))
       = [CallCompactedEventlog \<lparr>After_c = 0, Until_c = 500, Type_c = ''article''\<rparr>]"
    using c
    by (simp add: NewLogFollower_def example_options_def min_int64_def compactedBlockSize_def
        word_sless_alt)
  have "fst (GetNext ?C (example_world 0)) = Inr [\<lparr>Id_item = 400, Type_item = ''article''\<rparr>]"
    by (simp add: eval_defs)
  with t0 tail c0 comp show ?thesis by simp
qed

subsection \<open>C7: a failing call changes neither position nor mode\<close>

text \<open>
  C7: whenever \<^verbatim>\<open>GetNext\<close> returns an error, be it from the boundary resolution, from
  the compacted fetch or from the tail fetch, the position and the mode of the follower
  after the call are those before the call.
\<close>

theorem GetNext_error_keeps_state:
  assumes "GetNext lf w = (Inl err, lf', w')"
  shows "position lf' = position lf \<and> caughtUp lf' = caughtUp lf"
  using assms
proof (cases rule: GetNext_cases)
  case (resolve_failed e)
  from checkLogEnd_error [OF this(1)] show ?thesis by simp
next
  case (poll_failed lf1 w1 e)
  from checkLogEnd_keeps [OF this(1)] poll_error [OF this(2)] show ?thesis by simp
next
  case (ok lf1 w1 items w2)
  then show ?thesis by simp
qed

theorem GetNext_error_keeps_state_witness:
  "fst (GetNext (NewLogFollower (example_docs example_log) (example_options 0 False 0))
         (example_world 2)) = Inl (PollCompactedEventlog ''unavailable'')
   \<and> GetState (fst (snd (GetNext
         (NewLogFollower (example_docs example_log) (example_options 0 False 0))
         (example_world 2)))) = (0, False)"
proof -
  let ?lf = "NewLogFollower (example_docs example_log) (example_options 0 False 0)"
  have r: "fst (GetNext ?lf (example_world 2)) = Inl (PollCompactedEventlog ''unavailable'')"
    by (simp add: eval_defs)
  then obtain lf' w' where
    g: "GetNext ?lf (example_world 2) = (Inl (PollCompactedEventlog ''unavailable''), lf', w')"
    by (cases "GetNext ?lf (example_world 2)") auto
  have "position ?lf = 0" "caughtUp ?lf = False"
    by (simp_all add: NewLogFollower_def example_options_def)
  with GetNext_error_keeps_state [OF g] g r show ?thesis
    by (simp add: GetState_def)
qed

subsection \<open>C8: the boundary is resolved once\<close>

text \<open>
  C8: from a follower whose boundary is resolved, every call of a run leaves the flag set
  and the boundary as it is, and the run sends no "latest entry" request (the live read
  with \<^verbatim>\<open>After = -1\<close> and no batch size). From a follower whose boundary is not
  resolved, the next call starts with that request; the flag is set after the call
  exactly when the request succeeded, and when it is not, the call has returned the
  error of the resolution and the follower is unchanged, so that the call after it
  starts with the request again.
\<close>

theorem boundary_resolution_memoized:
  "(endCompactRead lf \<longrightarrow>
      (\<forall>(r, lf', w') \<in> set (GetNext_calls n lf w).
          endCompactRead lf' \<and> endCompact lf' = endCompact lf
        \<and> CallEventlog \<lparr>After = - 1, BatchSize = 0, WaitMs = 0\<rparr> \<notin> set (new_calls w w')))
   \<and> (\<not> endCompactRead lf \<longrightarrow>
      (\<forall>r lf' w'. GetNext lf w = (r, lf', w') \<longrightarrow>
          (\<exists>rest. new_calls w w'
             = CallEventlog \<lparr>After = - 1, BatchSize = 0, WaitMs = 0\<rparr> # rest)
        \<and> (endCompactRead lf' \<longleftrightarrow>
             (\<exists>items. fst (Eventlog (docs lf) \<lparr>After = - 1, BatchSize = 0, WaitMs = 0\<rparr>
                               (server w)) = Inr items))
        \<and> (\<not> endCompactRead lf' \<longrightarrow> lf' = lf \<and> (\<exists>e. r = Inl (ReadLastEvent e)))))"
proof (intro conjI impI allI ballI)
  fix x assume res: "endCompactRead lf" and x: "x \<in> set (GetNext_calls n lf w)"
  obtain r lf' w' where x': "x = (r, lf', w')" by (cases x) auto
  let ?I = "\<lambda>f. endCompactRead f \<and> endCompact f = endCompact lf"
  let ?Q = "\<lambda>c. c \<noteq> CallEventlog \<lparr>After = - 1, BatchSize = 0, WaitMs = 0\<rparr>"
  have "?I lf' \<and> (\<forall>c \<in> set (new_calls w w'). ?Q c)"
  proof (rule GetNext_calls_invariant [where I = ?I and Q = ?Q])
    show "?I lf" using res by simp
    show "(r, lf', w') \<in> set (GetNext_calls n lf w)" using x x' by simp
  next
    fix f v r1 f1 v1
    assume i: "?I f" and g: "GetNext f v = (r1, f1, v1)"
    from i have rf: "endCompactRead f" by simp
    from GetNext_resolved_stays [OF g rf] GetNext_resolved_calls [OF g rf] i
    show "?I f1 \<and> (\<forall>c \<in> set (new_calls v v1). ?Q c)"
      by (simp add: eventlogBatchSize_def)
  qed
  then show "case x of (r, lf', w') \<Rightarrow>
          endCompactRead lf' \<and> endCompact lf' = endCompact lf
        \<and> CallEventlog \<lparr>After = - 1, BatchSize = 0, WaitMs = 0\<rparr> \<notin> set (new_calls w w')"
    using x' by auto
next
  fix r lf' w'
  assume "\<not> endCompactRead lf" "GetNext lf w = (r, lf', w')"
  from GetNext_unresolved(1) [OF this(2,1)]
  show "\<exists>rest. new_calls w w' = CallEventlog \<lparr>After = - 1, BatchSize = 0, WaitMs = 0\<rparr> # rest" .
next
  fix r lf' w'
  assume "\<not> endCompactRead lf" "GetNext lf w = (r, lf', w')"
  from GetNext_unresolved(2) [OF this(2,1)]
  show "endCompactRead lf' \<longleftrightarrow>
      (\<exists>items. fst (Eventlog (docs lf) \<lparr>After = - 1, BatchSize = 0, WaitMs = 0\<rparr> (server w))
                = Inr items)" .
next
  fix r lf' w'
  assume "\<not> endCompactRead lf" "GetNext lf w = (r, lf', w')" "\<not> endCompactRead lf'"
  from GetNext_unresolved(3) [OF this(2,1,3)]
  show "lf' = lf" and "\<exists>e. r = Inl (ReadLastEvent e)" by simp_all
qed

theorem boundary_resolution_memoized_witness:
  "\<not> endCompactRead (NewLogFollower (example_docs example_log) (example_options 0 False 0))
   \<and> map (\<lambda>(r, lf', w'). (r, endCompactRead lf', new_calls (example_world 1) w'))
        (GetNext_calls 1 (NewLogFollower (example_docs example_log) (example_options 0 False 0))
           (example_world 1))
       = [(Inl (ReadLastEvent ''unavailable''), False,
           [CallEventlog \<lparr>After = - 1, BatchSize = 0, WaitMs = 0\<rparr>])]
   \<and> endCompactRead (fst (snd (GetNext
         (NewLogFollower (example_docs example_log) (example_options 0 False 0))
         (example_world 0))))
   \<and> map (\<lambda>(r, lf', w'). (endCompactRead lf', endCompact lf'))
        (GetNext_calls 3
           (fst (snd (GetNext
              (NewLogFollower (example_docs example_log) (example_options 0 False 0))
              (example_world 0))))
           (example_world 0))
       = [(True, 1000), (True, 1000), (True, 1000)]"
proof -
  let ?resolve = "\<lparr>After = - 1, BatchSize = 0, WaitMs = 0\<rparr>"
  let ?L = "NewLogFollower (example_docs example_log) (example_options 0 False 0)"
  let ?R = "fst (snd (GetNext ?L (example_world 0)))"
  have u: "\<not> endCompactRead ?L" by (simp add: NewLogFollower_def)
  obtain r lf' w' where g: "GetNext ?L (example_world 1) = (r, lf', w')"
    by (cases "GetNext ?L (example_world 1)") auto
  have "fst (Eventlog (docs ?L) ?resolve (server (example_world 1))) = Inl ''unavailable''"
    by (simp add: eval_defs)
  with boundary_resolution_memoized [of ?L 0 "example_world 1"] u g
  have "\<not> endCompactRead lf'" and "lf' = ?L" and "\<exists>e. r = Inl (ReadLastEvent e)"
    by simp_all
  moreover have "fst (GetNext ?L (example_world 1)) = Inl (ReadLastEvent ''unavailable'')"
    and "new_calls (example_world 1) (snd (snd (GetNext ?L (example_world 1))))
           = [CallEventlog ?resolve]"
    by (simp_all add: eval_defs new_calls_def)
  ultimately have first:
    "map (\<lambda>(r, lf', w'). (r, endCompactRead lf', new_calls (example_world 1) w'))
        (GetNext_calls 1 ?L (example_world 1))
       = [(Inl (ReadLastEvent ''unavailable''), False, [CallEventlog ?resolve])]"
    using g by simp
  have res: "endCompactRead ?R" and b: "endCompact ?R = 1000"
    by (simp_all add: eval_defs)
  obtain r1 lf1 w1 r2 lf2 w2 r3 lf3 w3 where
    run: "GetNext_calls 3 ?R (example_world 0) = [(r1, lf1, w1), (r2, lf2, w2), (r3, lf3, w3)]"
    by (rule GetNext_calls_3)
  from boundary_resolution_memoized [of ?R 3 "example_world 0"] res run b
  have "map (\<lambda>(r, lf', w'). (endCompactRead lf', endCompact lf'))
          (GetNext_calls 3 ?R (example_world 0)) = [(True, 1000), (True, 1000), (True, 1000)]"
    by simp
  with u first res show ?thesis by simp
qed

subsection \<open>C9: the wait budget is clamped from above\<close>

text \<open>
  C9, amended: for every wait duration of at least \<open>-2\<^sup>3\<^sup>1\<close> milliseconds, the follower
  stores the duration in milliseconds, clamped from above to the maximum of a signed
  32-bit integer, and every live read of Tailing mode (a live read with the batch size of
  the tail poll) in a run of the new follower carries that value as its \<^verbatim>\<open>WaitMs\<close>.
  Below \<open>-2\<^sup>3\<^sup>1\<close> milliseconds the conversion to \<^verbatim>\<open>int32\<close> wraps around, as the
  counterexample shows: \<open>-2147483649\<close> milliseconds are stored as \<open>2147483647\<close>.
\<close>

theorem wait_clamped_above:
  assumes "- 2147483648 \<le> sint (Milliseconds (WaitDuration opts))"
  shows "sint (wait (NewLogFollower d opts))
           = min (sint (Milliseconds (WaitDuration opts))) 2147483647
    \<and> (\<forall>(r, lf', w') \<in> set (GetNext_calls n (NewLogFollower d opts) w).
          wait lf' = wait (NewLogFollower d opts)
        \<and> (\<forall>req. CallEventlog req \<in> set (new_calls w w')
              \<longrightarrow> BatchSize req = eventlogBatchSize
              \<longrightarrow> WaitMs req = wait (NewLogFollower d opts)))"
proof
  from assms
  have "signed_take_bit 31 (min (sint (Milliseconds (WaitDuration opts))) 2147483647)
      = min (sint (Milliseconds (WaitDuration opts))) 2147483647"
    by (intro signed_take_bit_int_eq_self) simp_all
  then show "sint (wait (NewLogFollower d opts))
           = min (sint (Milliseconds (WaitDuration opts))) 2147483647"
    by (simp only: sint_wait_NewLogFollower)
  show "\<forall>(r, lf', w') \<in> set (GetNext_calls n (NewLogFollower d opts) w).
          wait lf' = wait (NewLogFollower d opts)
        \<and> (\<forall>req. CallEventlog req \<in> set (new_calls w w')
              \<longrightarrow> BatchSize req = eventlogBatchSize
              \<longrightarrow> WaitMs req = wait (NewLogFollower d opts))"
    using wait_forwarded [of _ _ _ n "NewLogFollower d opts" w] by fastforce
qed

theorem wait_clamped_above_witness:
  "- 2147483648 \<le> sint (Milliseconds 9000000000000000000)
   \<and> sint (Milliseconds 9000000000000000000) = 9000000000000
   \<and> sint (wait (NewLogFollower (example_docs example_log)
                   (example_options 999 True 9000000000000000000))) = 2147483647
   \<and> map (\<lambda>(r, lf', w'). (sint (wait lf'), new_calls (example_world 0) w'))
        (GetNext_calls 1
           (NewLogFollower (example_docs example_log)
              (example_options 999 True 9000000000000000000))
           (example_world 0))
       = [(2147483647,
           [CallEventlog \<lparr>After = - 1, BatchSize = 0, WaitMs = 0\<rparr>,
            CallEventlog \<lparr>After = 999, BatchSize = 100, WaitMs = 2147483647\<rparr>])]"
proof -
  let ?opts = "example_options 999 True 9000000000000000000"
  let ?L = "NewLogFollower (example_docs example_log) ?opts"
  have d: "WaitDuration ?opts = 9000000000000000000" by (simp add: example_options_def)
  have m: "sint (Milliseconds 9000000000000000000) = 9000000000000"
    by (simp add: Milliseconds_def)
  then have h: "- 2147483648 \<le> sint (Milliseconds (WaitDuration ?opts))"
    by (simp add: d)
  obtain r lf' w' where g: "GetNext ?L (example_world 0) = (r, lf', w')"
    by (cases "GetNext ?L (example_world 0)") auto
  from wait_clamped_above [OF h, of "example_docs example_log" 1 "example_world 0"] g m d
  have "sint (wait ?L) = 2147483647" and "wait lf' = wait ?L"
    by simp_all
  moreover have "new_calls (example_world 0) (snd (snd (GetNext ?L (example_world 0))))
      = [CallEventlog \<lparr>After = - 1, BatchSize = 0, WaitMs = 0\<rparr>,
         CallEventlog \<lparr>After = 999, BatchSize = 100, WaitMs = 2147483647\<rparr>]"
    by (simp add: eval_defs new_calls_def)
  ultimately show ?thesis using g m by simp
qed

theorem wait_clamp_counterexample:
  "sint (Milliseconds (- 2147483649000000)) = - 2147483649
   \<and> sint (wait (NewLogFollower (example_docs example_log)
                   (example_options 0 True (- 2147483649000000)))) = 2147483647
   \<and> sint (wait (NewLogFollower (example_docs example_log)
                   (example_options 0 True (- 2147483649000000))))
       \<noteq> min (sint (Milliseconds (- 2147483649000000))) 2147483647"
  by (simp add: eval_defs)

subsection \<open>C10: negative wait durations\<close>

text \<open>
  C10, amended: for every negative wait duration of at least \<open>-2\<^sup>3\<^sup>1\<close> milliseconds,
  the stored wait is the millisecond count of the duration, rounded towards zero: it is
  never positive, and it is negative exactly when the duration is one millisecond or
  longer. No lower clamp is applied, and every live read of Tailing mode in a run of the
  new follower carries the stored value. The counterexample shows the two ways in which
  the claim as stated fails: a negative duration shorter than a millisecond is stored as
  0, and a duration below \<open>-2\<^sup>3\<^sup>1\<close> milliseconds wraps around to a positive wait.
\<close>

theorem negative_wait_kept:
  assumes "sint (WaitDuration opts) < 0"
    and "- 2147483648 \<le> sint (Milliseconds (WaitDuration opts))"
  shows "sint (wait (NewLogFollower d opts)) = - ((- sint (WaitDuration opts)) div 1000000)
    \<and> sint (wait (NewLogFollower d opts)) = sint (Milliseconds (WaitDuration opts))
    \<and> (sint (wait (NewLogFollower d opts)) < 0 \<longleftrightarrow> sint (WaitDuration opts) \<le> - 1000000)
    \<and> (\<forall>(r, lf', w') \<in> set (GetNext_calls n (NewLogFollower d opts) w).
          wait lf' = wait (NewLogFollower d opts)
        \<and> (\<forall>req. CallEventlog req \<in> set (new_calls w w')
              \<longrightarrow> BatchSize req = eventlogBatchSize
              \<longrightarrow> WaitMs req = wait (NewLogFollower d opts)))"
proof -
  let ?k = "sint (WaitDuration opts)"
  from assms(1) have ms: "sint (Milliseconds (WaitDuration opts)) = - ((- ?k) div 1000000)"
    by (simp add: sint_Milliseconds)
  have pos: "0 < (- ?k) div 1000000 \<longleftrightarrow> 1000000 \<le> - ?k"
    by (rule pos_imp_zdiv_pos_iff) simp
  from assms(1) have "0 \<le> (- ?k) div 1000000"
    by (simp add: pos_imp_zdiv_nonneg_iff)
  with ms have le: "sint (Milliseconds (WaitDuration opts)) \<le> 0" by simp
  with assms(2)
  have "signed_take_bit 31 (min (sint (Milliseconds (WaitDuration opts))) 2147483647)
      = sint (Milliseconds (WaitDuration opts))"
    by (simp add: signed_take_bit_int_eq_self min_def)
  then have w: "sint (wait (NewLogFollower d opts)) = sint (Milliseconds (WaitDuration opts))"
    by (simp only: sint_wait_NewLogFollower)
  have run: "\<forall>(r, lf', w') \<in> set (GetNext_calls n (NewLogFollower d opts) w).
          wait lf' = wait (NewLogFollower d opts)
        \<and> (\<forall>req. CallEventlog req \<in> set (new_calls w w')
              \<longrightarrow> BatchSize req = eventlogBatchSize
              \<longrightarrow> WaitMs req = wait (NewLogFollower d opts))"
    using wait_forwarded [of _ _ _ n "NewLogFollower d opts" w] by fastforce
  from w ms pos have "sint (wait (NewLogFollower d opts)) < 0 \<longleftrightarrow> ?k \<le> - 1000000"
    by linarith
  with w ms run show ?thesis by simp
qed

theorem negative_wait_kept_witness:
  "sint (- 1500000 :: Duration) < 0
   \<and> - 2147483648 \<le> sint (Milliseconds (- 1500000))
   \<and> sint (wait (NewLogFollower (example_docs example_log)
                   (example_options 999 True (- 1500000)))) = - 1
   \<and> map (\<lambda>(r, lf', w'). (sint (wait lf'), new_calls (example_world 0) w'))
        (GetNext_calls 1
           (NewLogFollower (example_docs example_log) (example_options 999 True (- 1500000)))
           (example_world 0))
       = [(- 1,
           [CallEventlog \<lparr>After = - 1, BatchSize = 0, WaitMs = 0\<rparr>,
            CallEventlog \<lparr>After = 999, BatchSize = 100, WaitMs = - 1\<rparr>])]"
proof -
  let ?opts = "example_options 999 True (- 1500000)"
  let ?L = "NewLogFollower (example_docs example_log) ?opts"
  have d: "WaitDuration ?opts = - 1500000" by (simp add: example_options_def)
  have n: "sint (- 1500000 :: Duration) < 0" by simp
  have m: "sint (Milliseconds (- 1500000)) = - 1"
    by (simp add: Milliseconds_def)
  from n have h1: "sint (WaitDuration ?opts) < 0" by (simp only: d)
  from m have h2: "- 2147483648 \<le> sint (Milliseconds (WaitDuration ?opts))"
    by (simp add: d)
  obtain r lf' w' where g: "GetNext ?L (example_world 0) = (r, lf', w')"
    by (cases "GetNext ?L (example_world 0)") auto
  from negative_wait_kept [OF h1 h2, of "example_docs example_log" 1 "example_world 0"] g m d
  have "sint (wait ?L) = - 1" and "wait lf' = wait ?L"
    by simp_all
  moreover have "new_calls (example_world 0) (snd (snd (GetNext ?L (example_world 0))))
      = [CallEventlog \<lparr>After = - 1, BatchSize = 0, WaitMs = 0\<rparr>,
         CallEventlog \<lparr>After = 999, BatchSize = 100, WaitMs = - 1\<rparr>]"
    by (simp add: eval_defs new_calls_def)
  ultimately show ?thesis using g m n by simp
qed

theorem negative_wait_counterexample:
  "sint (- 1 :: Duration) < 0
   \<and> sint (wait (NewLogFollower (example_docs example_log) (example_options 0 True (- 1)))) = 0
   \<and> sint (- 2147483649000000 :: Duration) < 0
   \<and> sint (Milliseconds (- 2147483649000000)) = - 2147483649
   \<and> sint (wait (NewLogFollower (example_docs example_log)
                   (example_options 0 True (- 2147483649000000)))) = 2147483647"
  by (simp add: eval_defs)

end
